theory Spec2Isabelle
  imports Main "HOL-Library.AList" "HOL-Library.Sublist"
begin

section \<open>Python string operations used by \<^verbatim>\<open>doc_diff.py\<close>\<close>

text \<open>
  Strings are byte strings: a text is the sequence of bytes that encodes it.
  \<^verbatim>\<open>'%s/%s' % (a, b)\<close> is written \<open>a @ ''/'' @ b\<close>.
\<close>

text \<open>\<^verbatim>\<open>s.split(c)\<close> for a one-character separator: never the empty list.\<close>

fun split_on :: "char \<Rightarrow> string \<Rightarrow> string list" where
  "split_on c [] = [[]]"
| "split_on c (x # xs) =
     (if x = c then [] # split_on c xs
      else (case split_on c xs of
              [] \<Rightarrow> [[x]]
            | p # ps \<Rightarrow> (x # p) # ps))"

text \<open>\<^verbatim>\<open>sep.join(xs)\<close>.\<close>

fun join :: "string \<Rightarrow> string list \<Rightarrow> string" where
  "join sep [] = []"
| "join sep [x] = x"
| "join sep (x # y # ys) = x @ sep @ join sep (y # ys)"

text \<open>\<^verbatim>\<open>s.replace(a, b)\<close> for one-character \<open>a\<close> and \<open>b\<close>.\<close>

definition replace :: "char \<Rightarrow> char \<Rightarrow> string \<Rightarrow> string" where
  "replace a b s = map (\<lambda>c. if c = a then b else c) s"

text \<open>
  \<^verbatim>\<open>s.lower()\<close>, byte by byte: the letters \<open>A\<close> to \<open>Z\<close> go to lower case, every other
  byte is kept. On a string of ASCII bytes this is \<^verbatim>\<open>str.lower\<close> of Python 3. That
  method also changes letters outside ASCII, which this function keeps, so a result
  that speaks about a lower-cased name is stated for names with \<open>isascii\<close>.
\<close>

definition lower_char :: "char \<Rightarrow> char" where
  "lower_char c =
     (let n = (of_char c :: nat)
      in if 65 \<le> n \<and> n \<le> 90 then char_of (n + 32) else c)"

definition lower :: "string \<Rightarrow> string" where
  "lower s = map lower_char s"

text \<open>\<^verbatim>\<open>s.isascii()\<close>: every byte is below 128, that is, its top bit is clear.\<close>

definition isascii :: "string \<Rightarrow> bool" where
  "isascii s = list_all (\<lambda>c. \<not> digit7 c) s"

text \<open>
  \<^verbatim>\<open>os.path.dirname\<close> of \<^verbatim>\<open>posixpath\<close>:
  \<^verbatim>\<open>
  i = p.rfind('/') + 1
  head = p[:i]
  if head and head != '/'*len(head):
      head = head.rstrip('/')
  return head
  \<close>
\<close>

definition rstrip :: "char \<Rightarrow> string \<Rightarrow> string" where
  "rstrip c s = rev (dropWhile (\<lambda>x. x = c) (rev s))"

definition dirname :: "string \<Rightarrow> string" where
  "dirname p =
     (let head = rev (dropWhile (\<lambda>x. x \<noteq> CHR ''/'') (rev p))
      in if head \<noteq> [] \<and> head \<noteq> replicate (length head) CHR ''/''
         then rstrip CHR ''/'' head
         else head)"


section \<open>The file system and the process environment\<close>

text \<open>
  The script talks to a POSIX file system through \<^verbatim>\<open>os\<close>, \<^verbatim>\<open>shutil\<close>,
  \<^verbatim>\<open>filecmp\<close> and \<^verbatim>\<open>open\<close>, and prints to standard output. The world below is
  what these calls can observe and change: a store of directories and regular files,
  the time stamps a write will get, and the trace of effects performed so far.

  Scope of the model: one process, no symbolic links, no permission or disk-full
  failures. File contents are bytes. Writing a text stores the bytes that encode it;
  reading a file as text decodes its bytes, which can fail and which translates line
  ends (see \<open>read_file\<close>).
  A path is resolved as POSIX does for plain names: empty components and \<open>.\<close> are
  skipped, a leading \<open>/\<close> starts at the root, anything else at the working directory.
  The name \<open>..\<close> is not interpreted (the model has no link from a directory to its
  parent), so the results speak about paths without \<open>..\<close> components.
\<close>

datatype error =
    FileNotFoundError string
  | FileExistsError string
  | NotADirectoryError string
  | IsADirectoryError string
  | UnicodeDecodeError string
  | OSError string
  | Raised string

datatype node = Dir | File (content: string) (mtime: nat)

datatype root = Cwd | Root

type_synonym key = "root \<times> string list"

datatype event = Print string | Write string | Mkdir string | Rmtree string

record world =
  fs :: "(key \<times> node) list"
  clock :: "nat \<Rightarrow> nat"
  ticks :: nat
  trace :: "event list"

text \<open>
  \<open>fs\<close> lists the entries in the order in which the file system enumerates them;
  \<open>clock w n\<close> is the modification time the \<open>n\<close>-th write of the run will stamp;
  \<open>trace\<close> records every effect in the order performed.
\<close>

definition comps :: "string \<Rightarrow> string list" where
  "comps p = filter (\<lambda>c. c \<noteq> [] \<and> c \<noteq> ''.'') (split_on CHR ''/'' p)"

definition root_of :: "string \<Rightarrow> root" where
  "root_of p = (case p of [] \<Rightarrow> Cwd | c # _ \<Rightarrow> if c = CHR ''/'' then Root else Cwd)"

definition key_of :: "string \<Rightarrow> key" where
  "key_of p = (root_of p, comps p)"

text \<open>A path without a \<open>..\<close> component: the paths the model resolves as POSIX does.\<close>

definition dotdot_free :: "string \<Rightarrow> bool" where
  "dotdot_free p = (''..'' \<notin> set (comps p))"

definition parent :: "key \<Rightarrow> key" where
  "parent k = (fst k, butlast (snd k))"

definition below :: "key \<Rightarrow> key \<Rightarrow> bool" where
  "below d k = (fst d = fst k \<and> prefix (snd d) (snd k))"

text \<open>The working directory and the root always exist.\<close>

definition node_at :: "world \<Rightarrow> key \<Rightarrow> node option" where
  "node_at w k = (if snd k = [] then Some Dir else map_of (fs w) k)"

text \<open>\<^verbatim>\<open>os.stat\<close>, as far as the script uses it: the empty path names nothing.\<close>

definition stat :: "world \<Rightarrow> string \<Rightarrow> node option" where
  "stat w p = (if p = [] then None else node_at w (key_of p))"

text \<open>
  The error of a lookup that finds nothing. POSIX resolves a path component by
  component and fails at the first component that is not a directory: with
  \<^verbatim>\<open>ENOTDIR\<close> (\<^verbatim>\<open>NotADirectoryError\<close>) when a regular file sits there, with
  \<^verbatim>\<open>ENOENT\<close> (\<^verbatim>\<open>FileNotFoundError\<close>) when nothing does. \<open>ancestors k\<close> are the
  directories on the way to \<open>k\<close>, outermost first; \<open>through_file w p\<close> says that the
  first of them that is not a directory is a regular file.
\<close>

definition ancestors :: "key \<Rightarrow> key list" where
  "ancestors k = map (Pair (fst k)) (butlast (prefixes (snd k)))"

definition through_file :: "world \<Rightarrow> string \<Rightarrow> bool" where
  "through_file w p =
     (case find (\<lambda>a. node_at w a \<noteq> Some Dir) (ancestors (key_of p)) of
        None \<Rightarrow> False
      | Some a \<Rightarrow> (case node_at w a of Some (File s t) \<Rightarrow> True | _ \<Rightarrow> False))"

definition not_found :: "world \<Rightarrow> string \<Rightarrow> error" where
  "not_found w p = (if through_file w p then NotADirectoryError p else FileNotFoundError p)"

definition is_name :: "string \<Rightarrow> bool" where
  "is_name n = (n \<noteq> [] \<and> n \<noteq> ''.'' \<and> CHR ''/'' \<notin> set n)"

definition children :: "world \<Rightarrow> key \<Rightarrow> string list" where
  "children w k =
     filter is_name
       (map (\<lambda>e. last (snd (fst e)))
          (filter (\<lambda>e. snd (fst e) \<noteq> [] \<and> parent (fst e) = k) (fs w)))"


subsection \<open>Computations that may raise\<close>

type_synonym 'a io = "world \<Rightarrow> (error + 'a) \<times> world"

definition io_return :: "'a \<Rightarrow> 'a io" where
  "io_return x w = (Inr x, w)"

definition io_raise :: "error \<Rightarrow> 'a io" where
  "io_raise e w = (Inl e, w)"

definition io_bind :: "'a io \<Rightarrow> ('a \<Rightarrow> 'b io) \<Rightarrow> 'b io" where
  "io_bind m f w =
     (case m w of
        (Inl e, w') \<Rightarrow> (Inl e, w')
      | (Inr x, w') \<Rightarrow> f x w')"

definition emit :: "event \<Rightarrow> world \<Rightarrow> world" where
  "emit e w = w\<lparr>trace := trace w @ [e]\<rparr>"


subsection \<open>The calls\<close>

definition print :: "string \<Rightarrow> unit io" where
  "print s w = (Inr (), emit (Print s) w)"

definition isdir :: "world \<Rightarrow> string \<Rightarrow> bool" where
  "isdir w p = (stat w p = Some Dir)"

text \<open>
  \<^verbatim>\<open>os.mkdir\<close>: the name must be free and the directory that is to hold it must
  exist; no intermediate directory is created.
\<close>

definition mkdir :: "string \<Rightarrow> unit io" where
  "mkdir p w =
     (if p = [] then (Inl (FileNotFoundError p), w)
      else case node_at w (key_of p) of
             Some n \<Rightarrow> (Inl (FileExistsError p), w)
           | None \<Rightarrow>
               (case node_at w (parent (key_of p)) of
                  Some Dir \<Rightarrow>
                    (Inr (), emit (Mkdir p) (w\<lparr>fs := fs w @ [(key_of p, Dir)]\<rparr>))
                | _ \<Rightarrow> (Inl (not_found w p), w)))"

text \<open>\<^verbatim>\<open>os.listdir\<close>: the names of the entries, in the store's order.\<close>

definition listdir :: "string \<Rightarrow> string list io" where
  "listdir p w =
     (case stat w p of
        None \<Rightarrow> (Inl (not_found w p), w)
      | Some (File s t) \<Rightarrow> (Inl (NotADirectoryError p), w)
      | Some Dir \<Rightarrow> (Inr (children w (key_of p)), w))"

text \<open>
  \<^verbatim>\<open>with open(p, 'w') as fh: fh.write(s)\<close>: creates the file or replaces its
  content, and stamps the modification time.
\<close>

definition put :: "string \<Rightarrow> string \<Rightarrow> world \<Rightarrow> world" where
  "put p s w =
     emit (Write p)
       (w\<lparr>fs := AList.update (key_of p) (File s (clock w (ticks w))) (fs w),
          ticks := Suc (ticks w)\<rparr>)"

definition write_file :: "string \<Rightarrow> string \<Rightarrow> unit io" where
  "write_file p s w =
     (if p = [] then (Inl (FileNotFoundError p), w)
      else case node_at w (key_of p) of
             Some Dir \<Rightarrow> (Inl (IsADirectoryError p), w)
           | Some (File s0 t0) \<Rightarrow> (Inr (), put p s w)
           | None \<Rightarrow>
               (case node_at w (parent (key_of p)) of
                  Some Dir \<Rightarrow> (Inr (), put p s w)
                | _ \<Rightarrow> (Inl (not_found w p), w)))"

text \<open>
  \<^verbatim>\<open>open(p).read()\<close>. The file is opened in text mode: its bytes are decoded with
  the encoding of the locale, which raises \<^verbatim>\<open>UnicodeDecodeError\<close> on bytes that are
  no text in that encoding, and the line ends \<^verbatim>\<open>\r\n\<close> and \<^verbatim>\<open>\r\<close> are turned into
  \<^verbatim>\<open>\n\<close>. The decoder \<open>dec\<close> does both; it is a parameter (the field \<open>decode\<close> of the
  collaborators below).
\<close>

definition read_file :: "(string \<Rightarrow> error + string) \<Rightarrow> string \<Rightarrow> string io" where
  "read_file dec p w =
     (case stat w p of
        None \<Rightarrow> (Inl (not_found w p), w)
      | Some Dir \<Rightarrow> (Inl (IsADirectoryError p), w)
      | Some (File s t) \<Rightarrow> (dec s, w))"

text \<open>
  \<^verbatim>\<open>filecmp.cmp(f1, f2)\<close> with its default \<^verbatim>\<open>shallow=True\<close>:
  \<^verbatim>\<open>
  s1 = _sig(os.stat(f1))        # (file type, size, modification time)
  s2 = _sig(os.stat(f2))
  if s1[0] != stat.S_IFREG or s2[0] != stat.S_IFREG:
      return False
  if shallow and s1 == s2:
      return True
  if s1[1] != s2[1]:
      return False
  ... return _do_cmp(f1, f2)    # byte by byte
  \<close>
  The library also caches the outcome under both paths and both signatures. Within
  one run of the script a cached outcome is the outcome of comparing the same
  reference with the same generated text, so the cache is left out.
\<close>

definition filecmp_cmp :: "string \<Rightarrow> string \<Rightarrow> bool io" where
  "filecmp_cmp f1 f2 w =
     (case stat w f1 of
        None \<Rightarrow> (Inl (not_found w f1), w)
      | Some n1 \<Rightarrow>
          (case stat w f2 of
             None \<Rightarrow> (Inl (not_found w f2), w)
           | Some n2 \<Rightarrow>
               (case (n1, n2) of
                  (File s1 t1, File s2 t2) \<Rightarrow>
                    if length s1 = length s2 \<and> t1 = t2 then (Inr True, w)
                    else if length s1 \<noteq> length s2 then (Inr False, w)
                    else (Inr (s1 = s2), w)
                | _ \<Rightarrow> (Inr False, w))))"

text \<open>
  \<^verbatim>\<open>shutil.rmtree\<close>: removes the directory with everything below it. The working
  directory and the root cannot be removed: their content goes, then the final
  \<^verbatim>\<open>rmdir\<close> fails.
\<close>

definition rmtree :: "string \<Rightarrow> unit io" where
  "rmtree p w =
     (case stat w p of
        None \<Rightarrow> (Inl (not_found w p), w)
      | Some (File s t) \<Rightarrow> (Inl (NotADirectoryError p), w)
      | Some Dir \<Rightarrow>
          (let w' = emit (Rmtree p)
                     (w\<lparr>fs := filter (\<lambda>e. \<not> below (key_of p) (fst e)) (fs w)\<rparr>)
           in if snd (key_of p) = [] then (Inl (OSError p), w') else (Inr (), w')))"


section \<open>The script\<close>

subsection \<open>Collaborators\<close>

text \<open>
  The script evaluates a class identifier against the imported \<^verbatim>\<open>netket\<close> namespace
  (\<^verbatim>\<open>eval(class_name)\<close>), formats the class with \<^verbatim>\<open>fmt.format_class\<close>, and renders a
  diff with \<^verbatim>\<open>difflib.HtmlDiff().make_file\<close>. None of the three is part of the script;
  they are parameters. The first two may raise. A fourth parameter is the decoder of
  the text codec with which \<^verbatim>\<open>open(p).read()\<close> turns the bytes of a file into text;
  it raises on bytes that are no text.
\<close>

record 'o ext =
  eval_name :: "string \<Rightarrow> error + 'o"
  format_class :: "'o \<Rightarrow> error + string"
  make_file :: "string list \<Rightarrow> string list \<Rightarrow> string"
  decode :: "string \<Rightarrow> error + string"

definition lift :: "error + 'a \<Rightarrow> 'a io" where
  "lift r w = (r, w)"

subsection \<open>Module globals\<close>

definition build_dir :: string where
  "build_dir = ''temp''"

definition report_dir :: string where
  "report_dir = ''report''"

text \<open>
  \<^verbatim>\<open>doc_dirs = ['Graph']\<close>, overwritten by
  \<^verbatim>\<open>if len(sys.argv) > 1: doc_dirs = sys.argv[1::]\<close>.
\<close>

definition doc_dirs_of :: "string list \<Rightarrow> string list" where
  "doc_dirs_of argv = (if length argv > 1 then drop 1 argv else [''Graph''])"

subsection \<open>\<^verbatim>\<open>get_generated_docs\<close>\<close>

type_synonym docs = "string list \<times> string list \<times> string list"

text \<open>The inner loop \<^verbatim>\<open>for file_ in tmp\<close>: three appends per entry.\<close>

primrec append_entries :: "string \<Rightarrow> string list \<Rightarrow> docs \<Rightarrow> docs" where
  "append_entries doc_dir [] acc = acc"
| "append_entries doc_dir (file # tmp) acc =
     (case acc of (ref_files, mod_files, classes) \<Rightarrow>
        append_entries doc_dir tmp
          (ref_files @ [doc_dir @ ''/'' @ file],
           mod_files @ [build_dir @ ''/'' @ doc_dir @ ''/'' @ file],
           classes @ [''netket.'' @ lower doc_dir @ ''.'' @ hd (split_on CHR ''.'' file)]))"

text \<open>The outer loop \<^verbatim>\<open>for doc_dir in doc_dirs\<close>.\<close>

primrec list_dirs :: "string list \<Rightarrow> docs \<Rightarrow> docs io" where
  "list_dirs [] acc = io_return acc"
| "list_dirs (doc_dir # rest) acc =
     io_bind (listdir doc_dir) (\<lambda>tmp. list_dirs rest (append_entries doc_dir tmp acc))"

text \<open>The function reads the module global \<^verbatim>\<open>doc_dirs\<close>, here its argument.\<close>

definition get_generated_docs :: "string list \<Rightarrow> docs io" where
  "get_generated_docs doc_dirs = list_dirs doc_dirs ([], [], [])"

subsection \<open>\<^verbatim>\<open>init_dir\<close>, \<^verbatim>\<open>build\<close>, \<^verbatim>\<open>make_report\<close>\<close>

definition init_dir :: "string \<Rightarrow> unit io" where
  "init_dir new_dir w = (if \<not> isdir w new_dir then mkdir new_dir w else (Inr (), w))"

definition build :: "'o ext \<Rightarrow> string \<Rightarrow> string \<Rightarrow> bool \<Rightarrow> unit io" where
  "build x class_name output_name verbose =
     io_bind (if verbose then print (''Building documentation for: '' @ class_name)
              else io_return ())
       (\<lambda>_. io_bind (lift (eval_name x class_name))
       (\<lambda>class_obj. io_bind (lift (format_class x class_obj))
       (\<lambda>markdown. write_file output_name markdown)))"

text \<open>
  \<^verbatim>\<open>'%s/%s'%(report_dir, '/'.join(class_name.replace('.', '/').split('/')[1::]))\<close>
\<close>

definition out_file_of :: "string \<Rightarrow> string \<Rightarrow> string" where
  "out_file_of report_dir' class_name =
     report_dir' @ ''/'' @
       join ''/'' (tl (split_on CHR ''/'' (replace CHR ''.'' CHR ''/'' class_name)))"

definition lines_of :: "string \<Rightarrow> string list" where
  "lines_of s = split_on (CHR 0x0A) s"

definition make_report ::
  "'o ext \<Rightarrow> string \<Rightarrow> string \<Rightarrow> string \<Rightarrow> string \<Rightarrow> bool \<Rightarrow> bool io" where
  "make_report x ref_file mod_file class_name report_dir' verbose =
     io_bind (filecmp_cmp ref_file mod_file) (\<lambda>is_consistent.
     io_bind
       (if \<not> is_consistent then
          io_bind (init_dir report_dir') (\<lambda>_.
          io_bind (read_file (decode x) ref_file) (\<lambda>ref_text.
          io_bind (read_file (decode x) mod_file) (\<lambda>mod_text.
            let fromlines = lines_of ref_text;
                tolines = lines_of mod_text;
                html = make_file x fromlines tolines;
                out_file = out_file_of report_dir' class_name;
                out_dir = dirname out_file
            in
          io_bind (print (''Mismatch found in: '' @ class_name)) (\<lambda>_.
          io_bind (init_dir out_dir) (\<lambda>_.
          io_bind (write_file (out_file @ ''.html'') html) (\<lambda>_.
            if verbose then print (''Report written to: '' @ out_file @ ''.html'')
            else io_return ()))))))
        else io_return ())
       (\<lambda>_. io_return is_consistent))"

subsection \<open>\<^verbatim>\<open>init_docs\<close>, \<^verbatim>\<open>run\<close> and the module body\<close>

primrec init_doc_dirs :: "string \<Rightarrow> string list \<Rightarrow> unit io" where
  "init_doc_dirs build_dir' [] = io_return ()"
| "init_doc_dirs build_dir' (doc_dir # rest) =
     io_bind (init_dir (build_dir' @ ''/'' @ doc_dir)) (\<lambda>_. init_doc_dirs build_dir' rest)"

definition init_docs :: "string \<Rightarrow> string list \<Rightarrow> unit io" where
  "init_docs build_dir' doc_dirs' =
     io_bind (init_dir build_dir') (\<lambda>_. init_doc_dirs build_dir' doc_dirs')"

text \<open>
  The loop of \<^verbatim>\<open>run\<close> over \<^verbatim>\<open>zip(ref_files, mod_files, classes)\<close>, with the flag
  \<^verbatim>\<open>err\<close> it accumulates.
\<close>

primrec run_loop ::
  "'o ext \<Rightarrow> string \<Rightarrow> (string \<times> string \<times> string) list \<Rightarrow> bool \<Rightarrow> bool io" where
  "run_loop x report_dir' [] err = io_return err"
| "run_loop x report_dir' (doc # rest) err =
     (case doc of (ref_file, mod_file, class_name) \<Rightarrow>
        io_bind (build x class_name mod_file True) (\<lambda>_.
        io_bind (make_report x ref_file mod_file class_name report_dir' True)
          (\<lambda>is_consistent.
             run_loop x report_dir' rest (if \<not> is_consistent then True else err))))"

text \<open>
  \<^verbatim>\<open>run\<close> takes the scratch root, the topic directories and the report root;
  \<^verbatim>\<open>get_generated_docs\<close> inside it reads the module globals \<^verbatim>\<open>doc_dirs\<close> and
  \<^verbatim>\<open>build_dir\<close> instead. The first argument after the collaborators is that global
  \<^verbatim>\<open>doc_dirs\<close>.
\<close>

definition run ::
  "'o ext \<Rightarrow> string list \<Rightarrow> string \<Rightarrow> string list \<Rightarrow> string \<Rightarrow> bool io" where
  "run x doc_dirs build_dir' doc_dirs' report_dir' =
     io_bind (init_docs build_dir' doc_dirs') (\<lambda>_.
     io_bind (get_generated_docs doc_dirs) (\<lambda>docs.
       case docs of (ref_files, mod_files, classes) \<Rightarrow>
     io_bind (run_loop x report_dir' (zip ref_files (zip mod_files classes)) False)
       (\<lambda>err.
     io_bind (rmtree build_dir') (\<lambda>_. io_return err))))"

text \<open>
  \<^verbatim>\<open>sys.exit(r)\<close> with a Boolean \<open>r\<close> exits with status \<open>int(r)\<close>; an exception that
  nobody catches ends the interpreter with status 1.
\<close>

definition exit_status :: "error + bool \<Rightarrow> nat" where
  "exit_status r = (case r of Inl e \<Rightarrow> 1 | Inr err \<Rightarrow> if err then 1 else 0)"

text \<open>The module body: \<^verbatim>\<open>sys.exit(run(build_dir, doc_dirs, report_dir))\<close>.\<close>

definition main :: "'o ext \<Rightarrow> string list \<Rightarrow> world \<Rightarrow> nat \<times> world" where
  "main x argv w =
     (let doc_dirs = doc_dirs_of argv
      in case run x doc_dirs build_dir doc_dirs report_dir w of
           (r, w') \<Rightarrow> (exit_status r, w'))"


section \<open>Example collaborators and worlds\<close>

text \<open>Universal newlines: \<^verbatim>\<open>\r\n\<close> and \<^verbatim>\<open>\r\<close> become \<^verbatim>\<open>\n\<close>.\<close>

fun universal_newlines :: "string \<Rightarrow> string" where
  "universal_newlines [] = []"
| "universal_newlines [c] = [if c = CHR 0x0D then CHR 0x0A else c]"
| "universal_newlines (c # d # cs) =
     (if c = CHR 0x0D \<and> d = CHR 0x0A then CHR 0x0A # universal_newlines cs
      else (if c = CHR 0x0D then CHR 0x0A else c) # universal_newlines (d # cs))"

text \<open>
  A namespace that knows the classes \<open>netket.graph.Hypercube\<close>, \<open>netket.graph.Foo\<close> and
  \<open>netket.graph.sub.Foo\<close>, a formatter that writes a heading, a renderer that keeps
  both texts, and the ASCII codec with universal newlines.
\<close>

definition ex_ext :: "string ext" where
  "ex_ext =
     \<lparr>eval_name = (\<lambda>c. if c \<in> set [''netket.graph.Hypercube'', ''netket.graph.Foo'',
                                    ''netket.graph.sub.Foo'']
                        then Inr c else Inl (Raised c)),
      format_class = (\<lambda>c. Inr (''# '' @ c)),
      make_file = (\<lambda>a b. ''<html>'' @ concat a @ ''|'' @ concat b @ ''</html>''),
      decode = (\<lambda>s. if isascii s then Inr (universal_newlines s)
                     else Inl (UnicodeDecodeError s))\<rparr>"

definition mk_world :: "(key \<times> node) list \<Rightarrow> world" where
  "mk_world entries = \<lparr>fs = entries, clock = (\<lambda>n. 100 + n), ticks = 0, trace = []\<rparr>"

text \<open>Two files with the same content, written at different times.\<close>

definition w_same :: world where
  "w_same =
     mk_world [((Cwd, [''ref.md'']), File ''# Foo'' 5),
               ((Cwd, [''new.md'']), File ''# Foo'' 9)]"

text \<open>Two files of the same size and modification time whose contents differ.\<close>

definition w_shallow :: world where
  "w_shallow =
     mk_world [((Cwd, [''ref.md'']), File ''# Foo'' 7),
               ((Cwd, [''new.md'']), File ''# Bar'' 7)]"


text \<open>A topic directory with two documents, one of them with two dots in its name.\<close>

definition w_docs :: world where
  "w_docs =
     mk_world [((Cwd, [''Graph'']), Dir),
               ((Cwd, [''Graph'', ''Hypercube.md'']), File ''# netket.graph.Hypercube'' 5),
               ((Cwd, [''Graph'', ''Foo.v2.md'']), File ''# Foo'' 6)]"


text \<open>A topic directory whose only document is what the formatter produces.\<close>

definition w_match :: world where
  "w_match =
     mk_world [((Cwd, [''Graph'']), Dir),
               ((Cwd, [''Graph'', ''Hypercube.md'']), File ''# netket.graph.Hypercube'' 5)]"


text \<open>An empty topic directory, beside a file that has nothing to do with the script.\<close>

definition w_graph_only :: world where
  "w_graph_only = mk_world [((Cwd, [''Graph'']), Dir)]"

definition w_empty_topic :: world where
  "w_empty_topic = mk_world [((Cwd, [''Graph'']), Dir), ((Cwd, [''notes.txt'']), File ''x'' 1)]"


text \<open>Two files that differ in content, size and modification time.\<close>

definition w_diff :: world where
  "w_diff =
     mk_world [((Cwd, [''ref.md'']), File ''x'' 1),
               ((Cwd, [''new.md'']), File ''yy'' 2)]"


text \<open>A reference that is no text in ASCII, and a candidate in Windows line ends.\<close>

definition w_binary :: world where
  "w_binary =
     mk_world [((Cwd, [''ref.md'']), File [CHR 0xFF] 1),
               ((Cwd, [''new.md'']), File (''a'' @ [CHR 0x0D, CHR 0x0A] @ ''b'') 2)]"

text \<open>
  A topic directory kept inside the scratch root, beside a regular one; the scratch
  root holds a directory \<open>temp\<close> of its own.
\<close>

definition w_nested :: world where
  "w_nested =
     mk_world [((Cwd, [''Graph'']), Dir),
               ((Cwd, [''Graph'', ''Foo.md'']), File ''# netket.graph.Foo'' 5),
               ((Cwd, [''temp'']), Dir),
               ((Cwd, [''temp'', ''temp'']), Dir),
               ((Cwd, [''temp'', ''Graph'']), Dir),
               ((Cwd, [''temp'', ''Graph'', ''Foo.md'']), File ''kept by hand'' 6)]"


section \<open>Notions of the specification\<close>

text \<open>
  The documents the locator finds: the pairs of a configured topic directory and an
  entry name listed in it, directory by directory, in listing order.
\<close>

definition entries :: "world \<Rightarrow> string list \<Rightarrow> (string \<times> string) list" where
  "entries w doc_dirs = concat (map (\<lambda>d. map (Pair d) (children w (key_of d))) doc_dirs)"

text \<open>
  Modelled from the spec's words, for comparison with the source: ``filename (minus
  extension)''. The extension of a file name starts at its last dot; a name without a
  dot, or with nothing but dots before its last dot, has none (as
  \<^verbatim>\<open>os.path.splitext\<close> has it).
\<close>

definition strip_extension :: "string \<Rightarrow> string" where
  "strip_extension f =
     (let stem = rev (tl (dropWhile (\<lambda>c. c \<noteq> CHR ''.'') (rev f)))
      in if CHR ''.'' \<notin> set f \<or> stem = replicate (length stem) CHR ''.'' then f else stem)"


text \<open>
  The verdicts of a run: the same steps as the loop of \<^verbatim>\<open>run\<close> (build, then
  compare), with the value each call of \<^verbatim>\<open>make_report\<close> returns collected in a list
  instead of folded into \<^verbatim>\<open>err\<close>.
\<close>

primrec verdicts ::
  "'o ext \<Rightarrow> string \<Rightarrow> (string \<times> string \<times> string) list \<Rightarrow> bool list io" where
  "verdicts x report_dir' [] = io_return []"
| "verdicts x report_dir' (doc # rest) =
     (case doc of (ref_file, mod_file, class_name) \<Rightarrow>
        io_bind (build x class_name mod_file True) (\<lambda>_.
        io_bind (make_report x ref_file mod_file class_name report_dir' True)
          (\<lambda>is_consistent.
        io_bind (verdicts x report_dir' rest) (\<lambda>vs. io_return (is_consistent # vs)))))"

text \<open>
  Everything \<^verbatim>\<open>run\<close> does before its cleanup step: prepare the scratch directories,
  locate the documents, build and compare each of them. It returns the verdicts when
  no step raises.
\<close>

definition comparisons ::
  "'o ext \<Rightarrow> string list \<Rightarrow> string \<Rightarrow> string list \<Rightarrow> string \<Rightarrow> bool list io" where
  "comparisons x doc_dirs build_dir' doc_dirs' report_dir' =
     io_bind (init_docs build_dir' doc_dirs') (\<lambda>_.
     io_bind (get_generated_docs doc_dirs) (\<lambda>docs.
       case docs of (ref_files, mod_files, classes) \<Rightarrow>
         verdicts x report_dir' (zip ref_files (zip mod_files classes))))"


text \<open>
  The scratch directories of a run: the scratch root and its subdirectory for each
  topic directory.
\<close>

definition scratch_dirs :: "string \<Rightarrow> string list \<Rightarrow> string set" where
  "scratch_dirs b ds = insert b ((\<lambda>d. b @ ''/'' @ d) ` set ds)"


text \<open>
  A directory that \<^verbatim>\<open>init_dir\<close> can provide: it exists, or its name is free and its
  parent is an existing directory, so that a single \<^verbatim>\<open>os.mkdir\<close> makes it.
\<close>

definition can_init_dir :: "world \<Rightarrow> string \<Rightarrow> bool" where
  "can_init_dir w p =
     (isdir w p \<or>
      (p \<noteq> [] \<and> node_at w (key_of p) = None \<and> node_at w (parent (key_of p)) = Some Dir))"

text \<open>The paths of the files written, in the order of writing.\<close>

definition writes_of :: "event list \<Rightarrow> string list" where
  "writes_of es = concat (map (\<lambda>e. case e of Write p \<Rightarrow> [p] | _ \<Rightarrow> []) es)"


text \<open>
  The scratch paths of a run, \<open>build_dir/dir/name\<close> for a topic directory and a file
  name, and the report paths under a report root.
\<close>

definition scratch_paths :: "string list \<Rightarrow> string set" where
  "scratch_paths ds = {build_dir @ ''/'' @ d @ ''/'' @ f | d f. d \<in> set ds \<and> is_name f}"

definition report_paths :: "string \<Rightarrow> string set" where
  "report_paths rd = {out_file_of rd c @ ''.html'' | c. True}"

text \<open>Strictly under a directory: below it and not the directory itself.\<close>

definition strictly_below :: "key \<Rightarrow> key \<Rightarrow> bool" where
  "strictly_below d k = (below d k \<and> k \<noteq> d)"


section \<open>Notions for the proofs\<close>

text \<open>Every outcome of a computation relates the world before to the world after.\<close>

definition steps :: "(world \<Rightarrow> world \<Rightarrow> bool) \<Rightarrow> 'a io \<Rightarrow> bool" where
  "steps R m = (\<forall>w r w'. m w = (r, w') \<longrightarrow> R w w')"

text \<open>Whatever is a directory remains one.\<close>

definition dirs_stay :: "world \<Rightarrow> world \<Rightarrow> bool" where
  "dirs_stay w w' = (\<forall>k. node_at w k = Some Dir \<longrightarrow> node_at w' k = Some Dir)"


text \<open>The trace grew by \<open>Mkdir\<close> events only, all of them for paths in \<open>A\<close>.\<close>

definition only_mkdirs :: "string set \<Rightarrow> world \<Rightarrow> world \<Rightarrow> bool" where
  "only_mkdirs A w w' = (\<exists>ps. trace w' = trace w @ map Mkdir ps \<and> set ps \<subseteq> A)"

text \<open>Nothing changed except at or below \<open>d\<close>.\<close>

definition same_outside :: "key \<Rightarrow> world \<Rightarrow> world \<Rightarrow> bool" where
  "same_outside d w w' = (\<forall>k. \<not> below d k \<longrightarrow> node_at w' k = node_at w k)"


text \<open>
  The files written since are all in \<open>A\<close>, and nothing changed except at or below
  \<open>kb\<close> and \<open>kr\<close>.
\<close>

definition confined :: "string set \<Rightarrow> key \<Rightarrow> key \<Rightarrow> world \<Rightarrow> world \<Rightarrow> bool" where
  "confined A kb kr w w' =
     ((\<exists>ps. writes_of (trace w') = writes_of (trace w) @ ps \<and> set ps \<subseteq> A) \<and>
      (\<forall>k. \<not> below kb k \<and> \<not> below kr k \<longrightarrow> node_at w' k = node_at w k))"


section \<open>Properties\<close>

subsection \<open>Sequencing\<close>

lemma io_bind_Inr: "m w = (Inr x, w') \<Longrightarrow> io_bind m f w = f x w'"
  by (simp add: io_bind_def)

lemma io_bind_Inl: "m w = (Inl e, w') \<Longrightarrow> io_bind m f w = (Inl e, w')"
  by (simp add: io_bind_def)

lemma io_bind_InrE:
  assumes "io_bind m f w = (Inr y, w'')"
  obtains x w' where "m w = (Inr x, w')" and "f x w' = (Inr y, w'')"
  using assms by (auto simp: io_bind_def split: prod.splits sum.splits)

lemmas world_eval =
  mk_world_def stat_def node_at_def key_of_def comps_def root_of_def isdir_def parent_def

subsection \<open>Strings\<close>

lemma split_on_nonempty: "split_on c s \<noteq> []"
  by (induction s) (auto split: list.splits)

lemma hd_split_on: "hd (split_on c s) = takeWhile (\<lambda>x. x \<noteq> c) s"
  by (induction s) (auto split: list.splits simp: split_on_nonempty)


subsection \<open>The command line\<close>

text \<open>
  Claim C9. When one or more positional arguments are given (\<open>args\<close> after the program
  name), the topic directories are exactly those arguments in their order; when none
  is given, the topic directories are the single built-in default \<open>Graph\<close>.
\<close>

theorem doc_dirs_from_argv:
  "(args \<noteq> [] \<longrightarrow> doc_dirs_of (prog # args) = args) \<and>
   doc_dirs_of [prog] = [''Graph'']"
  by (simp add: doc_dirs_of_def)

theorem doc_dirs_from_argv_witness:
  "doc_dirs_of [''doc_diff.py'', ''Graph'', ''Hilbert''] = [''Graph'', ''Hilbert''] \<and>
   doc_dirs_of [''doc_diff.py''] = [''Graph'']"
  using doc_dirs_from_argv [of "[''Graph'', ''Hilbert'']" "''doc_diff.py''"]
    doc_dirs_from_argv [of "[]" "''doc_diff.py''"]
  by simp


subsection \<open>The comparator on equal files\<close>

text \<open>
  Claim C5. When the reference path and the candidate path name regular files with
  the same content, \<open>make_report\<close> returns consistent (\<open>True\<close>) and leaves the world as
  it found it: no file written, no directory made, nothing printed. This holds for
  every report root, class identifier and verbosity, and whatever the two
  modification times are.
\<close>

theorem make_report_identical:
  assumes "stat w ref_file = Some (File s t1)"
      and "stat w mod_file = Some (File s t2)"
  shows "make_report x ref_file mod_file class_name report_dir' verbose w = (Inr True, w)"
  using assms by (simp add: make_report_def filecmp_cmp_def io_bind_def io_return_def)

theorem make_report_identical_witness:
  "make_report ex_ext ''ref.md'' ''new.md'' ''netket.graph.Foo'' ''report'' True w_same
     = (Inr True, w_same)"
proof -
  have r: "stat w_same ''ref.md'' = Some (File ''# Foo'' 5)"
    by (simp add: w_same_def world_eval)
  have m: "stat w_same ''new.md'' = Some (File ''# Foo'' 9)"
    by (simp add: w_same_def world_eval)
  show ?thesis by (rule make_report_identical [OF r m])
qed


subsection \<open>The comparator's verdict is not an exact comparison\<close>

text \<open>
  Claim C2 says that the verdict of the comparator is consistent exactly when the two
  files have identical contents. The script calls \<^verbatim>\<open>filecmp.cmp(ref_file, mod_file)\<close>
  with the default \<^verbatim>\<open>shallow=True\<close>, which takes two regular files of the same size
  and modification time to be equal without reading them. In \<open>w_shallow\<close> the
  reference holds \<open># Foo\<close> and the candidate \<open># Bar\<close>, both stamped 7: the verdict is
  consistent, and nothing is reported.
\<close>

theorem make_report_shallow_miss:
  "stat w_shallow ''ref.md'' = Some (File ''# Foo'' 7) \<and>
   stat w_shallow ''new.md'' = Some (File ''# Bar'' 7) \<and>
   make_report ex_ext ''ref.md'' ''new.md'' ''netket.graph.Foo'' ''report'' True w_shallow
     = (Inr True, w_shallow)"
  by (simp add: make_report_def filecmp_cmp_def io_bind_def io_return_def
      w_shallow_def world_eval)


subsection \<open>The locator\<close>

lemma append_entries_eq:
  "append_entries d tmp (rs, ms, cs) =
     (rs @ map (\<lambda>f. d @ ''/'' @ f) tmp,
      ms @ map (\<lambda>f. build_dir @ ''/'' @ d @ ''/'' @ f) tmp,
      cs @ map (\<lambda>f. ''netket.'' @ lower d @ ''.'' @ takeWhile (\<lambda>c. c \<noteq> CHR ''.'') f) tmp)"
  by (induction tmp arbitrary: rs ms cs) (simp_all add: hd_split_on)

lemma listdir_isdir: "isdir w d \<Longrightarrow> listdir d w = (Inr (children w (key_of d)), w)"
  by (simp add: listdir_def isdir_def)

lemma list_dirs_eq:
  assumes "\<forall>d \<in> set ds. isdir w d"
  shows "list_dirs ds (rs, ms, cs) w =
     (Inr (rs @ map (\<lambda>(d, f). d @ ''/'' @ f) (entries w ds),
           ms @ map (\<lambda>(d, f). build_dir @ ''/'' @ d @ ''/'' @ f) (entries w ds),
           cs @ map (\<lambda>(d, f). ''netket.'' @ lower d @ ''.'' @ takeWhile (\<lambda>c. c \<noteq> CHR ''.'') f)
                  (entries w ds)), w)"
  using assms
proof (induction ds arbitrary: rs ms cs)
  case Nil
  then show ?case by (simp add: io_return_def entries_def)
next
  case (Cons d ds)
  have l: "listdir d w = (Inr (children w (key_of d)), w)"
    using Cons.prems by (simp add: listdir_isdir)
  have e: "entries w (d # ds) = map (Pair d) (children w (key_of d)) @ entries w ds"
    by (simp add: entries_def)
  show ?case
    using Cons.prems
    by (simp add: io_bind_def l append_entries_eq Cons.IH e comp_def)
qed

lemma entries_w_docs:
  "entries w_docs [''Graph''] = [(''Graph'', ''Hypercube.md''), (''Graph'', ''Foo.v2.md'')]"
  by (simp add: entries_def children_def w_docs_def world_eval is_name_def)

lemma isdir_w_docs: "\<forall>d \<in> set [''Graph'']. isdir w_docs d"
  by (simp add: w_docs_def world_eval)

lemma isascii_w_docs: "\<forall>d \<in> set [''Graph'']. isascii d"
  by (simp add: isascii_def)

lemma lower_Graph: "lower ''Graph'' = ''graph''"
  by code_simp

text \<open>
  Claim C3, as the code has it. When every configured topic directory can be listed
  and has a name in ASCII, the locator returns three sequences that are the images
  of one and the same list, the documents \<open>entries w doc_dirs\<close> (each topic directory
  with each entry listed in it, in order): the reference path \<open>dir/file\<close>, the scratch
  path \<open>build_dir/dir/file\<close>, and the class identifier \<open>netket.\<close>, the directory name
  in lower case, a dot, and the file name up to its first dot. So the three sequences
  have the length of that list and their \<open>i\<close>-th elements belong to the \<open>i\<close>-th
  document. The world is unchanged.

  The names are taken to be ASCII because \<open>lower\<close> is \<^verbatim>\<open>str.lower\<close> on such names
  only; the entries of the directories are any names.

  The claim words the last segment as the file name minus its extension. The two
  differ on a name with more than one dot: the class identifier of \<open>Foo.v2.md\<close> is
  \<open>netket.graph.Foo\<close>, not \<open>netket.graph.Foo.v2\<close>.
\<close>

theorem get_generated_docs_lockstep:
  assumes "\<forall>d \<in> set doc_dirs. isdir w d"
      and "\<forall>d \<in> set doc_dirs. isascii d"
  shows "get_generated_docs doc_dirs w =
     (Inr (map (\<lambda>(d, f). d @ ''/'' @ f) (entries w doc_dirs),
           map (\<lambda>(d, f). build_dir @ ''/'' @ d @ ''/'' @ f) (entries w doc_dirs),
           map (\<lambda>(d, f). ''netket.'' @ lower d @ ''.'' @ takeWhile (\<lambda>c. c \<noteq> CHR ''.'') f)
             (entries w doc_dirs)), w)"
  using list_dirs_eq [OF assms(1), of "[]" "[]" "[]"] by (simp add: get_generated_docs_def)

theorem get_generated_docs_lockstep_witness:
  "get_generated_docs [''Graph''] w_docs =
     (Inr ([''Graph/Hypercube.md'', ''Graph/Foo.v2.md''],
           [''temp/Graph/Hypercube.md'', ''temp/Graph/Foo.v2.md''],
           [''netket.graph.Hypercube'', ''netket.graph.Foo'']), w_docs)"
  using get_generated_docs_lockstep [OF isdir_w_docs isascii_w_docs]
  by (simp add: entries_w_docs lower_Graph build_dir_def)

theorem get_generated_docs_extension_counterexample:
  "get_generated_docs [''Graph''] w_docs =
     (Inr ([''Graph/Hypercube.md'', ''Graph/Foo.v2.md''],
           [''temp/Graph/Hypercube.md'', ''temp/Graph/Foo.v2.md''],
           [''netket.graph.Hypercube'', ''netket.graph.Foo'']), w_docs) \<and>
   map (\<lambda>(d, f). ''netket.'' @ lower d @ ''.'' @ strip_extension f)
     (entries w_docs [''Graph''])
     = [''netket.graph.Hypercube'', ''netket.graph.Foo.v2''] \<and>
   [''netket.graph.Hypercube'', ''netket.graph.Foo'']
     \<noteq> [''netket.graph.Hypercube'', ''netket.graph.Foo.v2'']"
proof -
  have s: "strip_extension ''Foo.v2.md'' = ''Foo.v2''"
    by code_simp
  have h: "strip_extension ''Hypercube.md'' = ''Hypercube''"
    by code_simp
  show ?thesis
    using list_dirs_eq [OF isdir_w_docs, of "[]" "[]" "[]"]
    by (simp add: get_generated_docs_def entries_w_docs lower_Graph s h build_dir_def)
qed


subsection \<open>The calls\<close>

lemma fs_emit [simp]: "fs (emit e w) = fs w"
  by (simp add: emit_def)

lemma trace_emit [simp]: "trace (emit e w) = trace w @ [e]"
  by (simp add: emit_def)

lemma node_at_emit [simp]: "node_at (emit e w) k = node_at w k"
  by (simp add: node_at_def)

lemma stat_emit [simp]: "stat (emit e w) p = stat w p"
  by (simp add: stat_def)

lemma mkdir_Inr:
  assumes "mkdir p w = (Inr u, w')"
  shows "p \<noteq> []" and "node_at w (key_of p) = None"
    and "node_at w (parent (key_of p)) = Some Dir"
    and "w' = emit (Mkdir p) (w\<lparr>fs := fs w @ [(key_of p, Dir)]\<rparr>)"
  using assms by (auto simp: mkdir_def split: if_splits option.splits node.splits)

lemma mkdir_Inl: "mkdir p w = (Inl e, w') \<Longrightarrow> w' = w"
  by (auto simp: mkdir_def split: if_splits option.splits node.splits)

lemma node_at_append:
  "node_at (w\<lparr>fs := fs w @ [(k, n)]\<rparr>) k' =
     (case node_at w k' of Some m \<Rightarrow> Some m | None \<Rightarrow> if k' = k then Some n else None)"
  by (auto simp: node_at_def map_add_def split: option.splits)

lemma node_at_mkdir:
  assumes "mkdir p w = (Inr u, w')"
  shows "node_at w' k = (if k = key_of p then Some Dir else node_at w k)"
  using mkdir_Inr [OF assms] by (auto simp: node_at_append split: option.splits)

lemma node_at_put:
  "node_at (put p s w) k =
     (if k = key_of p \<and> snd k \<noteq> [] then Some (File s (clock w (ticks w))) else node_at w k)"
  by (auto simp: put_def node_at_def update_conv')

lemma write_file_Inr:
  assumes "write_file p s w = (Inr u, w')"
  shows "w' = put p s w" and "node_at w (key_of p) \<noteq> Some Dir" and "p \<noteq> []"
  using assms by (auto simp: write_file_def split: if_splits option.splits node.splits)

lemma write_file_Inl: "write_file p s w = (Inl e, w') \<Longrightarrow> w' = w"
  by (auto simp: write_file_def split: if_splits option.splits node.splits)

subsection \<open>Relating the world before and after\<close>

lemma stepsD: "steps R m \<Longrightarrow> m w = (r, w') \<Longrightarrow> R w w'"
  by (auto simp: steps_def)

lemma steps_return: "reflp R \<Longrightarrow> steps R (io_return x)"
  by (auto simp: steps_def io_return_def reflp_def)

lemma steps_lift: "reflp R \<Longrightarrow> steps R (lift r)"
  by (auto simp: steps_def lift_def reflp_def)

lemma steps_bind:
  assumes "transp R" and "steps R m" and "\<And>y. steps R (f y)"
  shows "steps R (io_bind m f)"
  unfolding steps_def
proof (intro allI impI)
  fix w r w' assume "io_bind m f w = (r, w')"
  then show "R w w'"
  proof (cases "m w")
    case (Pair r1 w1)
    then have 1: "R w w1" using assms(2) by (auto simp: steps_def)
    show ?thesis
    proof (cases r1)
      case (Inl e)
      with Pair \<open>io_bind m f w = (r, w')\<close> have "w' = w1" by (simp add: io_bind_def)
      with 1 show ?thesis by simp
    next
      case (Inr y)
      with Pair \<open>io_bind m f w = (r, w')\<close> have "f y w1 = (r, w')" by (simp add: io_bind_def)
      then have "R w1 w'" using assms(3) by (auto simp: steps_def)
      with 1 assms(1) show ?thesis by (auto dest: transpD)
    qed
  qed
qed

lemma steps_filecmp: "reflp R \<Longrightarrow> steps R (filecmp_cmp a b)"
  by (auto simp: steps_def filecmp_cmp_def reflp_def split: option.splits node.splits if_splits)

lemma steps_read: "reflp R \<Longrightarrow> steps R (read_file dec a)"
  by (auto simp: steps_def read_file_def reflp_def split: option.splits node.splits)

lemma steps_listdir: "reflp R \<Longrightarrow> steps R (listdir a)"
  by (auto simp: steps_def listdir_def reflp_def split: option.splits node.splits)

lemma steps_init_dir: "reflp R \<Longrightarrow> steps R (mkdir p) \<Longrightarrow> steps R (init_dir p)"
  by (auto simp: steps_def init_dir_def reflp_def split: if_splits)

lemma steps_build:
  assumes "reflp R" and "transp R" and "\<And>s. steps R (print s)" and "\<And>s. steps R (write_file p s)"
  shows "steps R (build x c p v)"
  unfolding build_def
  by (intro steps_bind assms steps_lift steps_return) (auto intro: assms steps_return)

lemma steps_make_report:
  assumes "reflp R" and "transp R" and "\<And>s. steps R (print s)"
    and "steps R (mkdir rd)" and "steps R (mkdir (dirname (out_file_of rd c)))"
    and "\<And>s. steps R (write_file (out_file_of rd c @ ''.html'') s)"
  shows "steps R (make_report x rf mf c rd v)"
  unfolding make_report_def Let_def
  by (intro steps_bind assms steps_filecmp steps_read steps_init_dir steps_return)
     (auto intro!: assms steps_return steps_bind steps_read steps_init_dir)

lemma dirs_stay_refl: "reflp dirs_stay"
  by (auto simp: reflp_def dirs_stay_def)

lemma dirs_stay_trans: "transp dirs_stay"
  by (auto simp: transp_def dirs_stay_def)

lemma dirs_stay_print: "steps dirs_stay (print s)"
  by (auto simp: steps_def print_def dirs_stay_def)

lemma dirs_stay_mkdir: "steps dirs_stay (mkdir p)"
  unfolding steps_def dirs_stay_def
proof (intro allI impI)
  fix w r w' k assume m: "mkdir p w = (r, w')" and d: "node_at w k = Some Dir"
  show "node_at w' k = Some Dir"
  proof (cases r)
    case (Inl e)
    with m d show ?thesis by (auto dest: mkdir_Inl)
  next
    case (Inr u)
    with m have "mkdir p w = (Inr u, w')" by simp
    from node_at_mkdir [OF this] d show ?thesis by simp
  qed
qed

lemma dirs_stay_write: "steps dirs_stay (write_file p s)"
  unfolding steps_def dirs_stay_def
proof (intro allI impI)
  fix w r w' k assume m: "write_file p s w = (r, w')" and d: "node_at w k = Some Dir"
  show "node_at w' k = Some Dir"
  proof (cases r)
    case (Inl e)
    with m d show ?thesis by (auto dest: write_file_Inl)
  next
    case (Inr u)
    with m have "w' = put p s w" and "node_at w (key_of p) \<noteq> Some Dir"
      by (auto dest: write_file_Inr)
    with d show ?thesis by (auto simp: node_at_put)
  qed
qed

lemma dirs_stay_build: "steps dirs_stay (build x c p v)"
  by (intro steps_build dirs_stay_refl dirs_stay_trans dirs_stay_print dirs_stay_write)

lemma dirs_stay_make_report: "steps dirs_stay (make_report x rf mf c rd v)"
  by (intro steps_make_report dirs_stay_refl dirs_stay_trans dirs_stay_print dirs_stay_write
      dirs_stay_mkdir)

lemma steps_run_loop:
  assumes "reflp R" and "transp R"
    and "\<And>rf mf c. (rf, mf, c) \<in> set docs \<Longrightarrow> steps R (build x c mf True)"
    and "\<And>rf mf c. (rf, mf, c) \<in> set docs \<Longrightarrow> steps R (make_report x rf mf c rd True)"
  shows "steps R (run_loop x rd docs err)"
  using assms(3,4)
proof (induction docs arbitrary: err)
  case Nil
  then show ?case by (simp add: steps_return assms(1))
next
  case (Cons doc docs)
  obtain rf mf c where doc: "doc = (rf, mf, c)" by (cases doc) auto
  show ?case
    unfolding doc run_loop.simps prod.case
    by (intro steps_bind assms(2) Cons.prems Cons.IH) (auto simp: doc intro: Cons.prems)
qed

lemma dirs_stay_run_loop: "steps dirs_stay (run_loop x rd docs err)"
  by (intro steps_run_loop dirs_stay_refl dirs_stay_trans dirs_stay_build dirs_stay_make_report)


subsection \<open>The run\<close>

lemma run_loop_verdicts:
  "run_loop x rd docs err w =
     (case verdicts x rd docs w of
        (Inl e, w') \<Rightarrow> (Inl e, w')
      | (Inr vs, w') \<Rightarrow> (Inr (err \<or> (\<exists>v \<in> set vs. \<not> v)), w'))"
proof (induction docs arbitrary: err w)
  case Nil
  then show ?case by (simp add: io_return_def)
next
  case (Cons doc docs)
  obtain rf mf c where doc: "doc = (rf, mf, c)" by (cases doc) auto
  show ?case
    by (auto simp: doc io_bind_def io_return_def Cons.IH split: prod.splits sum.splits)
qed

lemma dirs_stay_verdicts: "steps dirs_stay (verdicts x rd docs)"
proof (induction docs)
  case Nil
  then show ?case by (simp add: steps_return dirs_stay_refl)
next
  case (Cons doc docs)
  obtain rf mf c where doc: "doc = (rf, mf, c)" by (cases doc) auto
  show ?case
    unfolding doc verdicts.simps prod.case
    by (intro steps_bind dirs_stay_trans dirs_stay_build dirs_stay_make_report Cons.IH
        steps_return dirs_stay_refl)
qed

lemma dirs_stay_init_dir: "steps dirs_stay (init_dir p)"
  by (intro steps_init_dir dirs_stay_refl dirs_stay_mkdir)

lemma dirs_stay_init_doc_dirs: "steps dirs_stay (init_doc_dirs b ds)"
  by (induction ds) (auto intro!: steps_return steps_bind dirs_stay_refl dirs_stay_trans dirs_stay_init_dir)

lemma init_dir_isdir:
  assumes "init_dir p w = (Inr u, w')"
  shows "isdir w' p"
proof (cases "isdir w p")
  case True
  with assms show ?thesis by (simp add: init_dir_def)
next
  case False
  with assms have m: "mkdir p w = (Inr u, w')" by (simp add: init_dir_def)
  have "p \<noteq> []" using m by (rule mkdir_Inr(1))
  then show ?thesis by (simp add: isdir_def stat_def node_at_mkdir [OF m])
qed

lemma dirs_stayD: "dirs_stay w w' \<Longrightarrow> node_at w k = Some Dir \<Longrightarrow> node_at w' k = Some Dir"
  unfolding dirs_stay_def by blast

lemma dirs_stay_isdir: "dirs_stay w w' \<Longrightarrow> isdir w p \<Longrightarrow> isdir w' p"
  unfolding isdir_def stat_def by (cases "p = []") (simp_all add: dirs_stayD)

lemma init_docs_isdir:
  assumes "init_docs b ds w = (Inr u, w')"
  shows "isdir w' b"
proof -
  from assms obtain w1 where 1: "init_dir b w = (Inr (), w1)"
    and 2: "init_doc_dirs b ds w1 = (Inr u, w')"
    by (auto simp: init_docs_def elim!: io_bind_InrE)
  have "isdir w1 b" using 1 by (rule init_dir_isdir)
  moreover have "dirs_stay w1 w'" using dirs_stay_init_doc_dirs 2 by (rule stepsD)
  ultimately show ?thesis by (simp add: dirs_stay_isdir)
qed

lemma list_dirs_same: "steps (=) (list_dirs ds acc)"
proof (induction ds arbitrary: acc)
  case Nil
  show ?case by (simp add: steps_return reflp_def)
next
  case (Cons d ds)
  show ?case
    unfolding list_dirs.simps
    by (rule steps_bind) (simp_all add: transp_def reflp_def steps_listdir Cons.IH)
qed

lemma get_generated_docs_same: "get_generated_docs ds w = (r, w') \<Longrightarrow> w' = w"
  using stepsD [OF list_dirs_same] by (fastforce simp: get_generated_docs_def)

lemma comparisons_isdir:
  assumes "comparisons x ds b ds' rd w = (Inr vs, w1)"
  shows "isdir w1 b"
proof -
  from assms obtain u w0 docs w0' where 1: "init_docs b ds' w = (Inr u, w0)"
    and 2: "get_generated_docs ds w0 = (Inr docs, w0')"
    and 3: "(case docs of (rs, ms, cs) \<Rightarrow> verdicts x rd (zip rs (zip ms cs))) w0' = (Inr vs, w1)"
    by (auto simp: comparisons_def elim!: io_bind_InrE)
  have "w0' = w0" using 2 by (rule get_generated_docs_same)
  moreover have "isdir w0 b" using 1 by (rule init_docs_isdir)
  moreover have "dirs_stay w0' w1"
    using 3 by (cases docs) (auto dest: stepsD [OF dirs_stay_verdicts])
  ultimately show ?thesis by (simp add: dirs_stay_isdir)
qed

lemma run_comparisons:
  "run x ds b ds' rd w =
     (case comparisons x ds b ds' rd w of
        (Inl e, w1) \<Rightarrow> (Inl e, w1)
      | (Inr vs, w1) \<Rightarrow> io_bind (rmtree b) (\<lambda>_. io_return (\<exists>v \<in> set vs. \<not> v)) w1)"
  by (auto simp: run_def comparisons_def io_bind_def run_loop_verdicts
      split: prod.splits sum.splits)

lemma map_of_pruned:
  "map_of (filter (\<lambda>e. \<not> below d (fst e)) xs) k = (if below d k then None else map_of xs k)"
  by (induction xs) auto

lemma rmtree_isdir:
  assumes "isdir w b" and "snd (key_of b) \<noteq> []"
  shows "rmtree b w =
     (Inr (), emit (Rmtree b) (w\<lparr>fs := filter (\<lambda>e. \<not> below (key_of b) (fst e)) (fs w)\<rparr>))"
  using assms by (simp add: rmtree_def isdir_def Let_def)

lemma node_at_rmtree:
  "node_at (emit (Rmtree b) (w\<lparr>fs := filter (\<lambda>e. \<not> below (key_of b) (fst e)) (fs w)\<rparr>)) k =
     (if snd k = [] then Some Dir else if below (key_of b) k then None else node_at w k)"
  by (simp add: node_at_def map_of_pruned)

lemma key_of_build_dir: "key_of build_dir = (Cwd, [''temp''])"
  by (simp add: build_dir_def world_eval)

lemma build_dir_nonempty: "build_dir \<noteq> []"
  by (simp add: build_dir_def)

lemma run_result:
  assumes "comparisons x doc_dirs build_dir doc_dirs' report_dir' w = (Inr vs, w1)"
  shows "run x doc_dirs build_dir doc_dirs' report_dir' w =
     (Inr (\<exists>v \<in> set vs. \<not> v),
      emit (Rmtree build_dir)
        (w1\<lparr>fs := filter (\<lambda>e. \<not> below (key_of build_dir) (fst e)) (fs w1)\<rparr>))"
proof -
  have d: "isdir w1 build_dir" using assms by (rule comparisons_isdir)
  have n: "snd (key_of build_dir) \<noteq> []" by (simp add: key_of_build_dir)
  show ?thesis
    by (simp add: run_comparisons assms io_bind_def rmtree_isdir [OF d n] io_return_def)
qed

lemma run_raised:
  assumes "comparisons x doc_dirs b doc_dirs' report_dir' w = (Inl e, w1)"
  shows "run x doc_dirs b doc_dirs' report_dir' w = (Inl e, w1)"
  by (simp add: run_comparisons assms)

lemma pruned_facts:
  fixes w1 :: world
  defines "w' \<equiv> emit (Rmtree build_dir)
        (w1\<lparr>fs := filter (\<lambda>e. \<not> below (key_of build_dir) (fst e)) (fs w1)\<rparr>)"
  shows "stat w' build_dir = None"
    and "\<forall>k. below (key_of build_dir) k \<longrightarrow> node_at w' k = None"
    and "\<forall>k. \<not> below (key_of build_dir) k \<longrightarrow> node_at w' k = node_at w1 k"
    and "trace w' = trace w1 @ [Rmtree build_dir]"
proof -
  have n: "snd (key_of build_dir) \<noteq> []" by (simp add: key_of_build_dir)
  have at: "node_at w' k =
      (if snd k = [] then Some Dir else if below (key_of build_dir) k then None else node_at w1 k)"
    for k unfolding w'_def by (rule node_at_rmtree)
  have b: "below (key_of build_dir) (key_of build_dir)" by (simp add: below_def)
  show "stat w' build_dir = None"
    unfolding stat_def at using n b build_dir_nonempty by simp
  show "\<forall>k. below (key_of build_dir) k \<longrightarrow> node_at w' k = None"
    unfolding at using n by (auto simp: below_def)
  show "\<forall>k. \<not> below (key_of build_dir) k \<longrightarrow> node_at w' k = node_at w1 k"
    unfolding at by (auto simp: node_at_def)
  show "trace w' = trace w1 @ [Rmtree build_dir]"
    by (simp add: w'_def)
qed

text \<open>
  Claim C6. Whenever a run reaches its cleanup step (the scratch set-up, the locator
  and every build and comparison went through without raising), \<^verbatim>\<open>run\<close> returns
  the aggregate flag, and in the world it leaves the scratch root \<open>build_dir\<close> does not
  exist: nothing exists at or below it, and everything elsewhere is as it was when
  the cleanup started.
\<close>

theorem run_cleans_up:
  assumes "comparisons x doc_dirs build_dir doc_dirs report_dir' w = (Inr vs, w1)"
  shows "\<exists>w'. run x doc_dirs build_dir doc_dirs report_dir' w = (Inr (\<exists>v \<in> set vs. \<not> v), w') \<and>
      stat w' build_dir = None \<and>
      (\<forall>k. below (key_of build_dir) k \<longrightarrow> node_at w' k = None) \<and>
      (\<forall>k. \<not> below (key_of build_dir) k \<longrightarrow> node_at w' k = node_at w1 k)"
  using run_result [OF assms] pruned_facts(1,2,3) [of w1] by blast

lemmas run_eval =
  comparisons_def init_docs_def init_dir_def mkdir_def get_generated_docs_def listdir_def
  not_found_def through_file_def ancestors_def isascii_def
  children_def is_name_def io_bind_def io_return_def build_def print_def lift_def
  write_file_def put_def emit_def make_report_def filecmp_cmp_def read_file_def
  out_file_of_def replace_def dirname_def rstrip_def lines_of_def ex_ext_def
  build_dir_def report_dir_def Let_def world_eval

lemma cmp_match:
  "fst (comparisons ex_ext [''Graph''] build_dir [''Graph''] report_dir w_match) = Inr [True]"
  by (simp add: w_match_def run_eval lower_Graph)

lemma cmp_docs:
  "fst (comparisons ex_ext [''Graph''] build_dir [''Graph''] report_dir w_docs) = Inr [True, False]"
  by (simp add: w_docs_def run_eval lower_Graph)

theorem run_cleans_up_witness:
  "\<exists>w'. run ex_ext [''Graph''] build_dir [''Graph''] report_dir w_docs = (Inr True, w') \<and>
      stat w' build_dir = None"
proof -
  have c: "comparisons ex_ext [''Graph''] build_dir [''Graph''] report_dir w_docs =
      (Inr [True, False], snd (comparisons ex_ext [''Graph''] build_dir [''Graph''] report_dir w_docs))"
    using cmp_docs by (simp add: prod_eq_iff)
  show ?thesis using run_cleans_up [OF c] by auto
qed




subsection \<open>Paths\<close>

lemma split_on_append:
  "split_on c (a @ c # b) = split_on c a @ split_on c b"
proof (induction a)
  case Nil
  show ?case by simp
next
  case (Cons x a)
  obtain p ps where s: "split_on c a = p # ps"
    using split_on_nonempty [of c a] by (cases "split_on c a") auto
  show ?case by (simp add: Cons.IH s)
qed

lemma comps_slash: "comps (a @ CHR ''/'' # b) = comps a @ comps b"
  by (simp add: comps_def split_on_append)

lemma root_of_append: "a \<noteq> [] \<Longrightarrow> root_of (a @ b) = root_of a"
  by (cases a) (simp_all add: root_of_def)

lemma key_of_slash:
  "a \<noteq> [] \<Longrightarrow> key_of (a @ CHR ''/'' # b) = (fst (key_of a), snd (key_of a) @ comps b)"
  by (simp add: key_of_def comps_slash root_of_append)

lemma below_slash: "a \<noteq> [] \<Longrightarrow> below (key_of a) (key_of (a @ ''/'' @ b))"
  by (simp add: key_of_slash below_def)

subsection \<open>What the scratch set-up does\<close>

lemma only_mkdirs_refl: "reflp (only_mkdirs A)"
  unfolding reflp_def only_mkdirs_def by (intro allI exI [of _ "[]"]) simp

lemma only_mkdirs_trans: "transp (only_mkdirs A)"
  unfolding transp_def only_mkdirs_def
proof (intro allI impI)
  fix w1 w2 w3 :: world
  assume "\<exists>ps. trace w2 = trace w1 @ map Mkdir ps \<and> set ps \<subseteq> A"
    and "\<exists>ps. trace w3 = trace w2 @ map Mkdir ps \<and> set ps \<subseteq> A"
  then obtain ps qs where "trace w2 = trace w1 @ map Mkdir ps" "set ps \<subseteq> A"
    "trace w3 = trace w2 @ map Mkdir qs" "set qs \<subseteq> A" by blast
  then have "trace w3 = trace w1 @ map Mkdir (ps @ qs) \<and> set (ps @ qs) \<subseteq> A" by simp
  then show "\<exists>ps. trace w3 = trace w1 @ map Mkdir ps \<and> set ps \<subseteq> A" by blast
qed

lemma only_mkdirs_mkdir: "p \<in> A \<Longrightarrow> steps (only_mkdirs A) (mkdir p)"
  unfolding steps_def only_mkdirs_def
proof (intro allI impI)
  fix w r w' assume a: "p \<in> A" and m: "mkdir p w = (r, w')"
  show "\<exists>ps. trace w' = trace w @ map Mkdir ps \<and> set ps \<subseteq> A"
  proof (cases r)
    case (Inl e)
    with m have "w' = w" by (auto dest: mkdir_Inl)
    then show ?thesis by (intro exI [of _ "[]"]) simp
  next
    case (Inr u)
    with m have "trace w' = trace w @ map Mkdir [p]" using mkdir_Inr(4) [of p w u w'] by simp
    with a show ?thesis by (intro exI [of _ "[p]"]) simp
  qed
qed

lemma same_outside_refl: "reflp (same_outside d)"
  by (simp add: reflp_def same_outside_def)

lemma same_outside_trans: "transp (same_outside d)"
  by (simp add: transp_def same_outside_def)

lemma same_outside_mkdir: "below d (key_of p) \<Longrightarrow> steps (same_outside d) (mkdir p)"
  unfolding steps_def same_outside_def
proof (intro allI impI)
  fix w r w' k assume b: "below d (key_of p)" and m: "mkdir p w = (r, w')" and k: "\<not> below d k"
  show "node_at w' k = node_at w k"
  proof (cases r)
    case (Inl e)
    with m show ?thesis by (auto dest: mkdir_Inl)
  next
    case (Inr u)
    with m have "mkdir p w = (Inr u, w')" by simp
    from node_at_mkdir [OF this] b k show ?thesis by auto
  qed
qed

lemma steps_init_doc_dirs:
  assumes "reflp R" and "transp R" and "\<And>d. d \<in> set ds \<Longrightarrow> steps R (mkdir (b @ ''/'' @ d))"
  shows "steps R (init_doc_dirs b ds)"
  using assms(3)
proof (induction ds)
  case Nil
  show ?case by (simp add: steps_return assms(1))
next
  case (Cons d ds)
  show ?case
    unfolding init_doc_dirs.simps
    by (intro steps_bind steps_init_dir assms Cons.IH Cons.prems) simp_all
qed

lemma steps_init_docs:
  assumes "reflp R" and "transp R" and "steps R (mkdir b)"
    and "\<And>d. d \<in> set ds \<Longrightarrow> steps R (mkdir (b @ ''/'' @ d))"
  shows "steps R (init_docs b ds)"
  unfolding init_docs_def
  by (intro steps_bind steps_init_dir steps_init_doc_dirs assms)

lemma init_docs_only_mkdirs: "steps (only_mkdirs (scratch_dirs b ds)) (init_docs b ds)"
  by (intro steps_init_docs only_mkdirs_refl only_mkdirs_trans only_mkdirs_mkdir)
     (simp_all add: scratch_dirs_def)

lemma init_docs_same_outside:
  "b \<noteq> [] \<Longrightarrow> steps (same_outside (key_of b)) (init_docs b ds)"
  by (intro steps_init_docs same_outside_refl same_outside_trans same_outside_mkdir below_slash)
     (simp_all add: below_def)

subsection \<open>A missing topic directory\<close>

lemma not_found_plain: "\<not> through_file w p \<Longrightarrow> not_found w p = FileNotFoundError p"
  by (simp add: not_found_def)

lemma listdir_missing: "stat w d = None \<Longrightarrow> listdir d w = (Inl (not_found w d), w)"
  by (simp add: listdir_def)

lemma list_dirs_missing:
  assumes "\<forall>d' \<in> set ds1. isdir w d'" and "stat w d = None"
  shows "list_dirs (ds1 @ d # ds2) acc w = (Inl (not_found w d), w)"
  using assms(1)
proof (induction ds1 arbitrary: acc)
  case Nil
  show ?case by (simp add: io_bind_def listdir_missing [OF assms(2)])
next
  case (Cons a ds1)
  then have l: "listdir a w = (Inr (children w (key_of a)), w)"
    by (simp add: listdir_isdir)
  show ?case using Cons by (simp add: io_bind_def l)
qed

text \<open>
  Listing a path that runs through a regular file raises \<open>NotADirectoryError\<close>, as
  for \<open>notes.txt/sub\<close> beside the regular file \<open>notes.txt\<close>.
\<close>

lemma listdir_through_file:
  "through_file w_empty_topic ''notes.txt/sub'' \<and>
   listdir ''notes.txt/sub'' w_empty_topic
     = (Inl (NotADirectoryError ''notes.txt/sub''), w_empty_topic)"
  by (simp add: w_empty_topic_def listdir_def not_found_def through_file_def ancestors_def
      world_eval)




subsection \<open>No documents\<close>

lemma list_dirs_empty:
  assumes "\<forall>d \<in> set ds. listdir d w = (Inr [], w)"
  shows "list_dirs ds acc w = (Inr acc, w)"
  using assms by (induction ds) (simp_all add: io_return_def io_bind_def)

lemma key_of_report_dir: "key_of report_dir = (Cwd, [''report''])"
  by (simp add: report_dir_def world_eval)




subsection \<open>The report path\<close>

lemma last_slash:
  assumes "CHR ''/'' \<in> set p"
  obtains h y where "p = h @ CHR ''/'' # y" and "CHR ''/'' \<notin> set y"
  using split_list_last [OF assms] by blast

lemma comps_no_slash:
  assumes "CHR ''/'' \<notin> set y"
  shows "split_on CHR ''/'' y = [y]"
  using assms by (induction y) auto

lemma comps_name: "is_name y \<Longrightarrow> comps y = [y]"
  by (simp add: comps_def is_name_def comps_no_slash)

lemma comps_Nil: "comps [] = []"
  by (simp add: comps_def)

lemma comps_slashes: "comps (replicate n CHR ''/'') = []"
proof (induction n)
  case 0
  show ?case by (simp add: comps_Nil)
next
  case (Suc n)
  have "comps (replicate (Suc n) CHR ''/'') = comps ([] @ CHR ''/'' # replicate n CHR ''/'')"
    by simp
  also have "\<dots> = comps [] @ comps (replicate n CHR ''/'')" by (rule comps_slash)
  finally show ?case by (simp add: Suc comps_Nil)
qed

lemma rstrip_decomp: "\<exists>n. h = rstrip c h @ replicate n c"
proof -
  let ?t = "takeWhile (\<lambda>x. x = c) (rev h)"
  let ?d = "dropWhile (\<lambda>x. x = c) (rev h)"
  have "\<forall>x \<in> set ?t. x = c" by (auto dest: set_takeWhileD)
  then have t: "?t = replicate (length ?t) c" by (simp add: replicate_length_same)
  have "rev (rev h) = rev (?t @ ?d)" by simp
  then have "h = rev ?d @ rev ?t" by (simp only: rev_append rev_rev_ident)
  also have "rev ?t = rev (replicate (length ?t) c)" using t by simp
  also have "\<dots> = replicate (length ?t) c" by simp
  finally have "h = rstrip c h @ replicate (length ?t) c" by (simp only: rstrip_def)
  then show ?thesis ..
qed

lemma comps_append_slashes: "comps (t @ replicate n CHR ''/'') = comps t"
proof (cases n)
  case 0
  then show ?thesis by simp
next
  case (Suc m)
  have "comps (t @ replicate n CHR ''/'') = comps (t @ CHR ''/'' # replicate m CHR ''/'')"
    by (simp add: Suc)
  also have "\<dots> = comps t @ comps (replicate m CHR ''/'')" by (rule comps_slash)
  finally show ?thesis by (simp add: comps_slashes)
qed

lemma comps_rstrip: "comps (rstrip CHR ''/'' h) = comps h"
proof -
  obtain n where "h = rstrip CHR ''/'' h @ replicate n CHR ''/''"
    using rstrip_decomp by blast
  then have "comps h = comps (rstrip CHR ''/'' h @ replicate n CHR ''/'')" by simp
  then show ?thesis by (simp add: comps_append_slashes)
qed

lemma root_of_rstrip:
  assumes "rstrip CHR ''/'' h \<noteq> []"
  shows "root_of (rstrip CHR ''/'' h) = root_of h"
proof -
  obtain n where "h = rstrip CHR ''/'' h @ replicate n CHR ''/''"
    using rstrip_decomp by blast
  then have "root_of h = root_of (rstrip CHR ''/'' h @ replicate n CHR ''/'')" by simp
  then show ?thesis using assms by (simp add: root_of_append)
qed

lemma dropWhile_to: "c \<notin> set ys \<Longrightarrow> dropWhile (\<lambda>x. x \<noteq> c) (ys @ c # zs) = c # zs"
  by (induction ys) auto

lemma dirname_split:
  assumes "CHR ''/'' \<notin> set y"
  shows "dirname (h @ CHR ''/'' # y) =
     (if h = replicate (length h) CHR ''/'' then h @ ''/'' else rstrip CHR ''/'' h)"
proof -
  have "dropWhile (\<lambda>x. x \<noteq> CHR ''/'') (rev y @ CHR ''/'' # rev h) = CHR ''/'' # rev h"
    using assms by (simp add: dropWhile_to)
  then have hd: "rev (dropWhile (\<lambda>x. x \<noteq> CHR ''/'') (rev (h @ CHR ''/'' # y))) = h @ ''/''"
    by simp
  have "replicate (length (h @ ''/'')) CHR ''/'' = replicate (length h) CHR ''/'' @ ''/''"
    by (simp add: replicate_append_same)
  then have e: "(h @ ''/'' = replicate (length (h @ ''/'')) CHR ''/'')
      = (h = replicate (length h) CHR ''/'')"
    by (simp only: append_same_eq)
  have r: "rstrip CHR ''/'' (h @ ''/'') = rstrip CHR ''/'' h"
    by (simp add: rstrip_def)
  have n: "h @ ''/'' \<noteq> []" by simp
  show ?thesis
  proof (cases "h = replicate (length h) CHR ''/''")
    case True
    then show ?thesis unfolding dirname_def Let_def hd e by (simp only: if_True if_False simp_thms)
  next
    case False
    then show ?thesis unfolding dirname_def Let_def hd e r using n
      by (simp only: if_True if_False simp_thms)
  qed
qed

lemma rstrip_nonempty:
  assumes "h \<noteq> replicate (length h) c"
  shows "rstrip c h \<noteq> []"
proof
  assume e: "rstrip c h = []"
  obtain n where n: "h = rstrip c h @ replicate n c" using rstrip_decomp by blast
  then have "h = replicate n c" by (simp only: e append_Nil)
  then have "h = replicate (length h) c" by (metis length_replicate)
  with assms show False by simp
qed

lemma key_of_dirname:
  assumes "CHR ''/'' \<in> set p" and "sfx \<noteq> []" and "CHR ''/'' \<notin> set sfx" and "sfx \<noteq> ''.''"
    and "hd sfx = CHR ''.''"
  shows "key_of (dirname p) = parent (key_of (p @ sfx))" and "snd (key_of (p @ sfx)) \<noteq> []"
proof -
  obtain h y where p: "p = h @ CHR ''/'' # y" and y: "CHR ''/'' \<notin> set y"
    using assms(1) by (rule last_slash)
  have n: "is_name (y @ sfx)"
    using y assms(2-5) by (cases y; cases sfx) (auto simp: is_name_def)
  have c: "comps (p @ sfx) = comps h @ [y @ sfx]"
    using comps_slash [of h "y @ sfx"] by (simp add: p comps_name [OF n])
  have cd: "comps (dirname p) = comps h"
    using comps_slash [of h "[]"]
    by (simp add: p dirname_split [OF y] comps_rstrip comps_Nil)
  have rp: "root_of (p @ sfx) = root_of (h @ ''/'')"
    by (cases h) (simp_all add: p root_of_def)
  have rd: "root_of (dirname p) = root_of (p @ sfx)"
  proof (cases "h = replicate (length h) CHR ''/''")
    case True
    then have "dirname p = h @ ''/''" by (simp add: p dirname_split [OF y])
    then show ?thesis by (simp add: rp)
  next
    case False
    then have ne: "rstrip CHR ''/'' h \<noteq> []" by (rule rstrip_nonempty)
    from False have h: "h \<noteq> []" by auto
    from False have "dirname p = rstrip CHR ''/'' h" by (simp add: p dirname_split [OF y])
    then show ?thesis using h by (simp add: rp root_of_rstrip [OF ne] root_of_append)
  qed
  show "key_of (dirname p) = parent (key_of (p @ sfx))"
    by (simp add: key_of_def parent_def c cd rd)
  show "snd (key_of (p @ sfx)) \<noteq> []"
    by (simp add: key_of_def c)
qed

lemma out_file_has_slash: "CHR ''/'' \<in> set (out_file_of rd c)"
  by (simp add: out_file_of_def)

lemma key_of_out_dir:
  "key_of (dirname (out_file_of rd c)) = parent (key_of (out_file_of rd c @ ''.html''))"
  "snd (key_of (out_file_of rd c @ ''.html'')) \<noteq> []"
  using key_of_dirname [OF out_file_has_slash, of "''.html''" rd c] by simp_all

lemma comps_suffixed:
  assumes "sfx \<noteq> []" and "CHR ''/'' \<notin> set sfx" and "sfx \<noteq> ''.''" and "hd sfx = CHR ''.''"
  shows "comps (q @ sfx) \<noteq> []"
proof (cases "CHR ''/'' \<in> set q")
  case True
  then show ?thesis using key_of_dirname(2) [OF True assms] by (simp add: key_of_def)
next
  case False
  then have "is_name (q @ sfx)"
    using assms by (cases q; cases sfx) (auto simp: is_name_def)
  then show ?thesis by (simp add: comps_name)
qed

lemma key_of_out_file:
  "\<exists>m. snd (key_of (out_file_of rd c @ ''.html'')) = comps rd @ m \<and> m \<noteq> []"
proof -
  let ?X = "join ''/'' (tl (split_on CHR ''/'' (replace CHR ''.'' CHR ''/'' c))) @ ''.html''"
  have "out_file_of rd c @ ''.html'' = rd @ CHR ''/'' # ?X" by (simp add: out_file_of_def)
  then have 1: "snd (key_of (out_file_of rd c @ ''.html'')) = comps rd @ comps ?X"
    by (simp add: key_of_def comps_slash)
  have "comps ?X \<noteq> []" by (rule comps_suffixed) simp_all
  with 1 show ?thesis by blast
qed


subsection \<open>The comparator on files that differ\<close>

lemma writes_of_append [simp]: "writes_of (xs @ ys) = writes_of xs @ writes_of ys"
  by (simp add: writes_of_def)

lemma writes_of_simps [simp]:
  "writes_of [] = []" "writes_of (Write p # es) = p # writes_of es"
  "writes_of (Print s # es) = writes_of es" "writes_of (Mkdir p # es) = writes_of es"
  "writes_of (Rmtree p # es) = writes_of es"
  by (simp_all add: writes_of_def)

lemma ticks_emit [simp]: "ticks (emit e w) = ticks w"
  by (simp add: emit_def)

lemma clock_emit [simp]: "clock (emit e w) = clock w"
  by (simp add: emit_def)

lemma can_init_dir_emit [simp]: "can_init_dir (emit e w) p = can_init_dir w p"
  by (simp add: can_init_dir_def isdir_def)

lemma mkdir_facts:
  assumes "mkdir p w = (Inr u, w')"
  shows "writes_of (trace w') = writes_of (trace w)"
    and "ticks w' = ticks w" and "clock w' = clock w"
proof -
  have w': "w' = emit (Mkdir p) (w\<lparr>fs := fs w @ [(key_of p, Dir)]\<rparr>)"
    using assms by (rule mkdir_Inr(4))
  show "writes_of (trace w') = writes_of (trace w)" unfolding w' by simp
  show "ticks w' = ticks w" unfolding w' by (simp add: emit_def)
  show "clock w' = clock w" unfolding w' by (simp add: emit_def)
qed

lemma init_dir_cases:
  assumes "init_dir p w = (Inr u, w')"
  shows "w' = w \<or> mkdir p w = (Inr u, w')"
proof (cases "isdir w p")
  case True
  with assms show ?thesis by (simp add: init_dir_def)
next
  case False
  with assms show ?thesis by (simp add: init_dir_def)
qed

lemma init_dir_facts:
  assumes "init_dir p w = (Inr u, w')"
  shows "isdir w' p"
    and "k \<noteq> key_of p \<Longrightarrow> node_at w' k = node_at w k"
    and "node_at w k = Some n \<Longrightarrow> node_at w' k = Some n"
    and "writes_of (trace w') = writes_of (trace w)"
    and "ticks w' = ticks w" and "clock w' = clock w"
proof -
  note c = init_dir_cases [OF assms]
  show "isdir w' p" using assms by (rule init_dir_isdir)
  show "node_at w' k = node_at w k" if "k \<noteq> key_of p"
    using c
  proof
    assume "w' = w"
    then show ?thesis by simp
  next
    assume made: "mkdir p w = (Inr u, w')"
    show ?thesis using that by (simp add: node_at_mkdir [OF made])
  qed
  show "node_at w' k = Some n" if "node_at w k = Some n"
    using c
  proof
    assume "w' = w"
    then show ?thesis using that by simp
  next
    assume made: "mkdir p w = (Inr u, w')"
    have "node_at w (key_of p) = None" using made by (rule mkdir_Inr(2))
    with that have "k \<noteq> key_of p" by auto
    then show ?thesis using that by (simp add: node_at_mkdir [OF made])
  qed
  show "writes_of (trace w') = writes_of (trace w)"
    using c
  proof
    assume "w' = w"
    then show ?thesis by simp
  next
    assume "mkdir p w = (Inr u, w')"
    then show ?thesis by (rule mkdir_facts(1))
  qed
  show "ticks w' = ticks w"
    using c
  proof
    assume "w' = w"
    then show ?thesis by simp
  next
    assume "mkdir p w = (Inr u, w')"
    then show ?thesis by (rule mkdir_facts(2))
  qed
  show "clock w' = clock w"
    using c
  proof
    assume "w' = w"
    then show ?thesis by simp
  next
    assume "mkdir p w = (Inr u, w')"
    then show ?thesis by (rule mkdir_facts(3))
  qed
qed

lemma can_init_dir_ex: "can_init_dir w p \<Longrightarrow> \<exists>w'. init_dir p w = (Inr (), w')"
  by (auto simp: can_init_dir_def init_dir_def mkdir_def)

lemma write_file_ok:
  assumes "p \<noteq> []" and "node_at w (key_of p) \<noteq> Some Dir"
    and "node_at w (parent (key_of p)) = Some Dir"
  shows "write_file p s w = (Inr (), put p s w)"
  using assms by (auto simp: write_file_def split: option.splits node.splits)

lemma filecmp_detects:
  assumes "stat w f1 = Some (File a ta)" and "stat w f2 = Some (File b tb)"
    and "a \<noteq> b" and "length a \<noteq> length b \<or> ta \<noteq> tb"
  shows "filecmp_cmp f1 f2 w = (Inr False, w)"
  using assms by (auto simp: filecmp_cmp_def)

lemma read_file_File: "stat w p = Some (File a t) \<Longrightarrow> read_file dec p w = (dec a, w)"
  by (simp add: read_file_def)

lemma split_on_replace:
  "c2 \<notin> set s \<Longrightarrow> split_on c2 (replace c1 c2 s) = split_on c1 s"
  by (induction s) (auto simp: replace_def split: list.splits)

lemma butlast_neq:
  assumes "xs \<noteq> []"
  shows "butlast xs \<noteq> xs"
proof
  assume "butlast xs = xs"
  then have "length (butlast xs) = length xs" by simp
  then have "length xs - 1 = length xs" by (simp only: length_butlast)
  moreover have "0 < length xs" using assms by simp
  ultimately show False by arith
qed

text \<open>
  Claim C4, as the code has it. Let the reference and the candidate be regular files
  whose contents differ and whose sizes or modification times differ (so that the
  comparison reads the contents; for the other pairs see C2), and let both contents
  be text: the decoder returns a text for each. Let the report root have no \<open>..\<close>
  component and exist or be made by \<^verbatim>\<open>init_dir\<close>, let the directory of the report
  then exist or be one \<^verbatim>\<open>mkdir\<close> away, and let no directory sit at the report path.
  Then \<^verbatim>\<open>make_report\<close> returns inconsistent (\<open>False\<close>) and writes exactly one
  file: the diff of the lines of the two decoded texts as the renderer returns it, at
  the report path. Nothing else changes except the two directories it may have made.

  The report path is \<open>out_file_of report_dir' class_name @ ''.html''\<close>; for a class
  identifier without a slash this is the report root, a slash, the segments of the
  dotted identifier after the first joined by slashes, and \<open>.html\<close>.

  The claim promises the report for every pair of differing files. Without the
  condition on the directories this fails: \<^verbatim>\<open>os.mkdir\<close> makes one level only, so
  for \<open>netket.graph.sub.Foo\<close> under a fresh report root the call raises
  \<open>FileNotFoundError\<close> for \<open>report/graph/sub\<close> and writes nothing.
\<close>

theorem make_report_writes_report:
  fixes x :: "'o ext"
  defines "out \<equiv> \<lambda>rd c. out_file_of rd c @ ''.html''"
  assumes "stat w ref_file = Some (File a ta)" and "stat w mod_file = Some (File b tb)"
      and "a \<noteq> b" and "length a \<noteq> length b \<or> ta \<noteq> tb"
      and "decode x a = Inr ref_text" and "decode x b = Inr mod_text"
      and "dotdot_free report_dir'"
      and "init_dir report_dir' w = (Inr (), w1)"
      and "can_init_dir w1 (dirname (out_file_of report_dir' class_name))"
      and "stat w (out report_dir' class_name) \<noteq> Some Dir"
  shows "\<exists>w'. make_report x ref_file mod_file class_name report_dir' verbose w = (Inr False, w') \<and>
      writes_of (trace w') = writes_of (trace w) @ [out report_dir' class_name] \<and>
      stat w' (out report_dir' class_name)
        = Some (File (make_file x (lines_of ref_text) (lines_of mod_text)) (clock w (ticks w))) \<and>
      (\<forall>k. k \<noteq> key_of (out report_dir' class_name) \<and> k \<noteq> key_of report_dir' \<and>
            k \<noteq> key_of (dirname (out_file_of report_dir' class_name)) \<longrightarrow>
            node_at w' k = node_at w k) \<and>
      (CHR ''/'' \<notin> set class_name \<longrightarrow>
         out report_dir' class_name =
           report_dir' @ ''/'' @ join ''/'' (tl (split_on CHR ''.'' class_name)) @ ''.html'')"
proof -
  let ?o = "out_file_of report_dir' class_name"
  let ?p = "?o @ ''.html''"
  let ?od = "dirname ?o"
  let ?html = "make_file x (lines_of ref_text) (lines_of mod_text)"
  let ?m = "''Mismatch found in: '' @ class_name"
  have c: "filecmp_cmp ref_file mod_file w = (Inr False, w)"
    by (rule filecmp_detects) fact+
  note f1 = init_dir_facts [OF assms(9)]
  have ne: "ref_file \<noteq> []" "mod_file \<noteq> []"
    using assms(2,3) by (auto simp: stat_def split: if_splits)
  have s1: "stat w1 ref_file = Some (File a ta)" and s2: "stat w1 mod_file = Some (File b tb)"
    using assms(2,3) ne by (auto intro!: f1(3) simp: stat_def)
  have r1: "read_file (decode x) ref_file w1 = (Inr ref_text, w1)"
    and r2: "read_file (decode x) mod_file w1 = (Inr mod_text, w1)"
    by (simp_all add: read_file_File [OF s1] read_file_File [OF s2] assms(6,7))
  obtain w2 where i2: "init_dir ?od (emit (Print ?m) w1) = (Inr (), w2)"
    using can_init_dir_ex [of "emit (Print ?m) w1" ?od] assms(10) by auto
  note f2 = init_dir_facts [OF i2]
  have kd: "key_of ?od = parent (key_of ?p)" and kn: "snd (key_of ?p) \<noteq> []"
    by (rule key_of_out_dir)+
  obtain m where km: "snd (key_of ?p) = comps report_dir' @ m" "m \<noteq> []"
    using key_of_out_file by blast
  have d1: "key_of ?p \<noteq> key_of report_dir'"
    using km by (auto simp: key_of_def)
  have d2: "key_of ?p \<noteq> key_of ?od"
  proof
    assume "key_of ?p = key_of ?od"
    with kd have "key_of ?p = parent (key_of ?p)" by simp
    then have "snd (key_of ?p) = snd (parent (key_of ?p))" by (rule arg_cong)
    then have "butlast (snd (key_of ?p)) = snd (key_of ?p)" by (simp add: parent_def)
    with butlast_neq [OF kn] show False by simp
  qed
  have n2: "node_at w2 (key_of ?p) = node_at w (key_of ?p)"
    using d1 d2 by (simp add: f1(2) f2(2))
  have "?od \<noteq> []" using f2(1) by (auto simp: isdir_def stat_def split: if_splits)
  then have pd: "node_at w2 (parent (key_of ?p)) = Some Dir"
    using f2(1) by (simp add: isdir_def stat_def kd)
  have nd: "node_at w2 (key_of ?p) \<noteq> Some Dir"
    using assms(11) by (simp add: n2 out_def stat_def)
  have wr: "write_file ?p ?html w2 = (Inr (), put ?p ?html w2)"
    by (rule write_file_ok) (simp_all add: nd pd)
  let ?w3 = "put ?p ?html w2"
  let ?w' = "if verbose then emit (Print (''Report written to: '' @ ?o @ ''.html'')) ?w3 else ?w3"
  have res: "make_report x ref_file mod_file class_name report_dir' verbose w = (Inr False, ?w')"
    by (simp add: make_report_def io_bind_def c assms(9) r1 r2 Let_def print_def
        i2 [simplified] wr io_return_def)
  have tr: "writes_of (trace ?w') = writes_of (trace w) @ [?p]"
    using f1(4) f2(4) by (simp add: put_def)
  have at: "node_at ?w' k =
      (if k = key_of ?p then Some (File ?html (clock w (ticks w))) else node_at w2 k)" for k
    using kn f1(5,6) f2(5,6) by (simp add: node_at_put)
  have st: "stat ?w' ?p = Some (File ?html (clock w (ticks w)))"
    unfolding stat_def at by simp
  have fr: "\<forall>k. k \<noteq> key_of ?p \<and> k \<noteq> key_of report_dir' \<and> k \<noteq> key_of ?od \<longrightarrow>
      node_at ?w' k = node_at w k"
    unfolding at by (simp add: f1(2) f2(2))
  have sp: "CHR ''/'' \<notin> set class_name \<longrightarrow>
      ?p = report_dir' @ ''/'' @ join ''/'' (tl (split_on CHR ''.'' class_name)) @ ''.html''"
    by (simp add: out_file_of_def split_on_replace)
  show ?thesis
    unfolding out_def using res tr st fr sp by (intro exI [of _ ?w']) (simp only: simp_thms)
qed


theorem make_report_writes_report_witness:
  "\<exists>w'. make_report ex_ext ''ref.md'' ''new.md'' ''netket.graph.Foo'' ''report'' True w_diff
          = (Inr False, w') \<and>
        writes_of (trace w') = [''report/graph/Foo.html''] \<and>
        stat w' ''report/graph/Foo.html'' = Some (File ''<html>x|yy</html>'' 100)"
proof -
  let ?w1 = "snd (init_dir ''report'' w_diff)"
  have r: "stat w_diff ''ref.md'' = Some (File ''x'' 1)"
    and m: "stat w_diff ''new.md'' = Some (File ''yy'' 2)"
    by (simp_all add: w_diff_def world_eval)
  have d: "''x'' \<noteq> ''yy''" and l: "length ''x'' \<noteq> length ''yy'' \<or> (1::nat) \<noteq> 2" by simp_all
  have da: "decode ex_ext ''x'' = Inr ''x''" and db: "decode ex_ext ''yy'' = Inr ''yy''"
    by (simp_all add: ex_ext_def isascii_def)
  have f: "dotdot_free ''report''"
    by (simp add: dotdot_free_def comps_def)
  have w1: "?w1 = \<lparr>fs = [((Cwd, [''ref.md'']), File ''x'' 1), ((Cwd, [''new.md'']), File ''yy'' 2),
                         ((Cwd, [''report'']), Dir)],
                   clock = (\<lambda>n. 100 + n), ticks = 0, trace = [Mkdir ''report'']\<rparr>"
    and ok: "fst (init_dir ''report'' w_diff) = Inr ()"
    by (simp_all add: w_diff_def init_dir_def mkdir_def emit_def world_eval)
  have i: "init_dir ''report'' w_diff = (Inr (), ?w1)"
    using ok by (simp add: prod_eq_iff)
  have o: "out_file_of ''report'' ''netket.graph.Foo'' = ''report/graph/Foo''"
    by (simp add: out_file_of_def replace_def)
  have dn: "dirname ''report/graph/Foo'' = ''report/graph''"
    by (simp add: dirname_def rstrip_def Let_def)
  have c: "can_init_dir ?w1 (dirname (out_file_of ''report'' ''netket.graph.Foo''))"
    unfolding w1 o dn by (simp add: can_init_dir_def world_eval)
  have n: "stat w_diff (out_file_of ''report'' ''netket.graph.Foo'' @ ''.html'') \<noteq> Some Dir"
    unfolding o by (simp add: w_diff_def world_eval)
  have t: "trace w_diff = []" "clock w_diff (ticks w_diff) = 100"
    by (simp_all add: w_diff_def mk_world_def)
  have h: "make_file ex_ext (lines_of ''x'') (lines_of ''yy'') = ''<html>x|yy</html>''"
    by (simp add: ex_ext_def lines_of_def)
  show ?thesis
    using make_report_writes_report [OF r m d l da db f i c n, of True]
    by (simp add: o t h) blast
qed

theorem make_report_deep_counterexample:
  "stat w_diff ''ref.md'' = Some (File ''x'' 1) \<and>
   stat w_diff ''new.md'' = Some (File ''yy'' 2) \<and>
   fst (make_report ex_ext ''ref.md'' ''new.md'' ''netket.graph.sub.Foo'' ''report'' True w_diff)
     = Inl (FileNotFoundError ''report/graph/sub'') \<and>
   writes_of (trace (snd (make_report ex_ext ''ref.md'' ''new.md'' ''netket.graph.sub.Foo''
     ''report'' True w_diff))) = [] \<and>
   stat (snd (make_report ex_ext ''ref.md'' ''new.md'' ''netket.graph.sub.Foo''
     ''report'' True w_diff)) ''report/graph/sub/Foo.html'' = None"
  by (simp add: w_diff_def run_eval)


text \<open>
  Reading decodes: Windows line ends come back as \<^verbatim>\<open>\n\<close>, and a reference that is
  no text makes \<^verbatim>\<open>make_report\<close> raise \<open>UnicodeDecodeError\<close> before it writes
  anything.
\<close>

lemma read_file_decodes:
  "read_file (decode ex_ext) ''new.md'' w_binary = (Inr (''a'' @ [CHR 0x0A] @ ''b''), w_binary) \<and>
   fst (make_report ex_ext ''ref.md'' ''new.md'' ''netket.graph.Foo'' ''report'' True w_binary)
     = Inl (UnicodeDecodeError [CHR 0xFF]) \<and>
   writes_of (trace (snd (make_report ex_ext ''ref.md'' ''new.md'' ''netket.graph.Foo''
     ''report'' True w_binary))) = []"
  by (simp add: w_binary_def run_eval)


subsection \<open>Where a run writes\<close>

lemma io_bind_cases [consumes 1, case_names raised went_on]:
  assumes "io_bind m f w = (r, w')"
  obtains e where "m w = (Inl e, w')" and "r = Inl e"
  | y w1 where "m w = (Inr y, w1)" and "f y w1 = (r, w')"
  using assms by (auto simp: io_bind_def split: prod.splits sum.splits)

lemma confinedI:
  assumes "writes_of (trace w') = writes_of (trace w) @ ps" and "set ps \<subseteq> A"
    and "\<And>k. \<not> below kb k \<Longrightarrow> \<not> below kr k \<Longrightarrow> node_at w' k = node_at w k"
  shows "confined A kb kr w w'"
  unfolding confined_def using assms by blast

lemma confined_refl: "reflp (confined A kb kr)"
  unfolding reflp_def by (intro allI confinedI [of _ _ "[]"]) simp_all

lemma confined_trans: "transp (confined A kb kr)"
  unfolding transp_def
proof (intro allI impI)
  fix w1 w2 w3 :: world
  assume 1: "confined A kb kr w1 w2" and 2: "confined A kb kr w2 w3"
  from 1 obtain ps where ps: "writes_of (trace w2) = writes_of (trace w1) @ ps" "set ps \<subseteq> A"
    and f1: "\<forall>k. \<not> below kb k \<and> \<not> below kr k \<longrightarrow> node_at w2 k = node_at w1 k"
    unfolding confined_def by blast
  from 2 obtain qs where qs: "writes_of (trace w3) = writes_of (trace w2) @ qs" "set qs \<subseteq> A"
    and f2: "\<forall>k. \<not> below kb k \<and> \<not> below kr k \<longrightarrow> node_at w3 k = node_at w2 k"
    unfolding confined_def by blast
  show "confined A kb kr w1 w3"
  proof (rule confinedI [of _ _ "ps @ qs"])
    show "writes_of (trace w3) = writes_of (trace w1) @ ps @ qs" using ps qs by simp
    show "set (ps @ qs) \<subseteq> A" using ps qs by simp
    show "node_at w3 k = node_at w1 k" if "\<not> below kb k" "\<not> below kr k" for k
      using that f1 [rule_format, of k] f2 [rule_format, of k] by simp
  qed
qed

lemma confined_print: "steps (confined A kb kr) (print s)"
  unfolding steps_def print_def
  by (intro allI impI confinedI [of _ _ "[]"]) auto

lemma confined_mkdir:
  assumes "below kb (key_of p) \<or> below kr (key_of p)"
  shows "steps (confined A kb kr) (mkdir p)"
  unfolding steps_def
proof (intro allI impI)
  fix w r w' assume m: "mkdir p w = (r, w')"
  show "confined A kb kr w w'"
  proof (cases r)
    case (Inl e)
    with m have "w' = w" by (auto dest: mkdir_Inl)
    then show ?thesis using confined_refl [of A kb kr] by (simp add: reflp_def)
  next
    case (Inr u)
    with m have m': "mkdir p w = (Inr u, w')" by simp
    show ?thesis
    proof (rule confinedI [of _ _ "[]"])
      show "writes_of (trace w') = writes_of (trace w) @ []"
        using mkdir_facts(1) [OF m'] by simp
      show "set [] \<subseteq> A" by simp
      show "node_at w' k = node_at w k" if "\<not> below kb k" "\<not> below kr k" for k
        using that assms by (auto simp: node_at_mkdir [OF m'])
    qed
  qed
qed

lemma confined_write:
  assumes "p \<in> A" and "below kb (key_of p) \<or> below kr (key_of p)"
  shows "steps (confined A kb kr) (write_file p s)"
  unfolding steps_def
proof (intro allI impI)
  fix w r w' assume m: "write_file p s w = (r, w')"
  show "confined A kb kr w w'"
  proof (cases r)
    case (Inl e)
    with m have "w' = w" by (auto dest: write_file_Inl)
    then show ?thesis using confined_refl [of A kb kr] by (simp add: reflp_def)
  next
    case (Inr u)
    with m have w': "w' = put p s w" by (auto dest: write_file_Inr(1))
    show ?thesis
    proof (rule confinedI [of _ _ "[p]"])
      show "writes_of (trace w') = writes_of (trace w) @ [p]" by (simp add: w' put_def)
      show "set [p] \<subseteq> A" using assms(1) by simp
      show "node_at w' k = node_at w k" if "\<not> below kb k" "\<not> below kr k" for k
        using that assms(2) by (auto simp: w' node_at_put)
    qed
  qed
qed

lemma confined_rmtree: "steps (confined A (key_of p) kr) (rmtree p)"
  unfolding steps_def
proof (intro allI impI)
  fix w r w' assume m: "rmtree p w = (r, w')"
  let ?w' = "emit (Rmtree p) (w\<lparr>fs := filter (\<lambda>e. \<not> below (key_of p) (fst e)) (fs w)\<rparr>)"
  have "w' = w \<or> w' = ?w'"
    using m by (auto simp: rmtree_def Let_def split: option.splits node.splits if_splits)
  then show "confined A (key_of p) kr w w'"
  proof
    assume "w' = w"
    then show ?thesis using confined_refl [of A "key_of p" kr] by (simp add: reflp_def)
  next
    assume w': "w' = ?w'"
    show ?thesis
    proof (rule confinedI [of _ _ "[]"])
      show "writes_of (trace w') = writes_of (trace w) @ []" by (simp add: w')
      show "set [] \<subseteq> A" by simp
      show "node_at w' k = node_at w k" if "\<not> below (key_of p) k" "\<not> below kr k" for k
        unfolding w' node_at_rmtree using that by (simp add: node_at_def)
    qed
  qed
qed


lemma children_names: "f \<in> set (children w k) \<Longrightarrow> is_name f"
  by (simp add: children_def)

lemma scratch_path_below:
  assumes "p \<in> scratch_paths ds"
  shows "strictly_below (key_of build_dir) (key_of p)"
proof -
  obtain d f where p: "p = build_dir @ ''/'' @ d @ ''/'' @ f" and f: "is_name f"
    using assms by (auto simp: scratch_paths_def)
  have "key_of p = (Cwd, [''temp''] @ comps (d @ CHR ''/'' # f))"
    using key_of_slash [OF build_dir_nonempty, of "d @ CHR ''/'' # f"]
    by (simp add: p key_of_build_dir)
  then have "key_of p = (Cwd, [''temp''] @ comps d @ [f])"
    by (simp add: comps_slash comps_name [OF f])
  then show ?thesis
    by (simp add: strictly_below_def below_def key_of_build_dir)
qed

lemma report_dir_nonempty: "report_dir \<noteq> []"
  by (simp add: report_dir_def)

lemma report_path_below:
  assumes "rd \<noteq> []" and "p \<in> report_paths rd"
  shows "strictly_below (key_of rd) (key_of p)"
proof -
  obtain c where p: "p = out_file_of rd c @ ''.html''"
    using assms(2) by (auto simp: report_paths_def)
  let ?X = "join ''/'' (tl (split_on CHR ''/'' (replace CHR ''.'' CHR ''/'' c))) @ ''.html''"
  have e: "p = rd @ CHR ''/'' # ?X" by (simp add: p out_file_of_def)
  have k: "key_of p = (fst (key_of rd), snd (key_of rd) @ comps ?X)"
    unfolding e by (rule key_of_slash [OF assms(1)])
  have "comps ?X \<noteq> []" by (rule comps_suffixed) simp_all
  then show ?thesis
    by (cases "key_of rd") (simp add: strictly_below_def below_def k)
qed

lemma out_dir_below:
  assumes "rd \<noteq> []"
  shows "below (key_of rd) (key_of (dirname (out_file_of rd c)))"
proof -
  have "out_file_of rd c @ ''.html'' \<in> report_paths rd" by (auto simp: report_paths_def)
  then have s: "strictly_below (key_of rd) (key_of (out_file_of rd c @ ''.html''))"
    by (rule report_path_below [OF assms])
  then obtain m where m: "snd (key_of (out_file_of rd c @ ''.html'')) = snd (key_of rd) @ m"
    and r: "fst (key_of (out_file_of rd c @ ''.html'')) = fst (key_of rd)"
    by (auto simp: strictly_below_def below_def prefix_def)
  have "m \<noteq> []" using s m r by (auto simp: strictly_below_def prod_eq_iff)
  then have "butlast (snd (key_of rd) @ m) = snd (key_of rd) @ butlast m"
    by (simp add: butlast_append)
  then show ?thesis
    by (simp add: key_of_out_dir(1) parent_def below_def m r)
qed

lemma confined_build:
  assumes "mf \<in> A" and "below kb (key_of mf)"
  shows "steps (confined A kb kr) (build x c mf v)"
  by (intro steps_build confined_refl confined_trans confined_print confined_write assms disjI1)

lemma confined_make_report:
  assumes "rd \<noteq> []" and "report_paths rd \<subseteq> A"
  shows "steps (confined A kb (key_of rd)) (make_report x rf mf c rd v)"
proof (intro steps_make_report confined_refl confined_trans confined_print confined_mkdir
    confined_write disjI2)
  show "below (key_of rd) (key_of rd)" by (simp add: below_def)
  show "below (key_of rd) (key_of (dirname (out_file_of rd c)))"
    by (rule out_dir_below [OF assms(1)])
  have p: "out_file_of rd c @ ''.html'' \<in> report_paths rd" by (auto simp: report_paths_def)
  show "out_file_of rd c @ ''.html'' \<in> A" using p assms(2) by blast
  show "below (key_of rd) (key_of (out_file_of rd c @ ''.html''))"
    using report_path_below [OF assms(1) p] by (simp add: strictly_below_def)
qed

lemma append_entries_mods:
  "set (fst (snd (append_entries d tmp acc))) = set (fst (snd acc)) \<union>
     (\<lambda>f. build_dir @ ''/'' @ d @ ''/'' @ f) ` set tmp"
  by (cases acc) (auto simp: append_entries_eq)

lemma listdir_Inr: "listdir d w = (Inr tmp, w1) \<Longrightarrow> tmp = children w (key_of d)"
  by (cases "stat w d") (auto simp: listdir_def split: node.splits)

lemma list_dirs_mods:
  assumes "list_dirs ds acc w = (Inr docs, w')"
  shows "set (fst (snd docs)) \<subseteq> set (fst (snd acc)) \<union> scratch_paths ds"
  using assms
proof (induction ds arbitrary: acc w)
  case Nil
  then show ?case by (simp add: io_return_def)
next
  case (Cons d ds)
  from Cons.prems
  have "io_bind (listdir d) (\<lambda>tmp. list_dirs ds (append_entries d tmp acc)) w = (Inr docs, w')"
    by simp
  then obtain tmp w1 where l: "listdir d w = (Inr tmp, w1)"
    and r: "list_dirs ds (append_entries d tmp acc) w1 = (Inr docs, w')"
    by (rule io_bind_InrE)
  have t: "tmp = children w (key_of d)" using l by (rule listdir_Inr)
  have n: "(\<lambda>f. build_dir @ ''/'' @ d @ ''/'' @ f) ` set tmp \<subseteq> scratch_paths (d # ds)"
  proof
    fix p assume "p \<in> (\<lambda>f. build_dir @ ''/'' @ d @ ''/'' @ f) ` set tmp"
    then obtain f where f: "f \<in> set tmp" and p: "p = build_dir @ ''/'' @ d @ ''/'' @ f" by blast
    have "is_name f" using f unfolding t by (rule children_names)
    then show "p \<in> scratch_paths (d # ds)"
      unfolding scratch_paths_def p by (intro CollectI exI [of _ d] exI [of _ f]) simp
  qed
  have m: "scratch_paths ds \<subseteq> scratch_paths (d # ds)"
    unfolding scratch_paths_def by (intro Collect_mono) auto
  have "set (fst (snd docs)) \<subseteq> set (fst (snd (append_entries d tmp acc))) \<union> scratch_paths ds"
    by (rule Cons.IH [OF r])
  then show ?case using n m unfolding append_entries_mods by blast
qed

lemma lower_temp_Graph: "lower ''temp/Graph'' = ''temp/graph''"
  by code_simp




end
